theory Spec2Isabelle
  imports Complex_Main "HOL-Library.Char_ord" "HOL-Library.List_Lexorder" "HOL-Library.Sublist"
begin

section \<open>Data model\<close>

text \<open>
  The three tables the pages read with \<^verbatim>\<open>pd.read_csv\<close>. A pandas Timestamp is an
  instant; it is a number of seconds here (a rational, so that any resolution is covered),
  and \<^verbatim>\<open>(end_time - start_time).total_seconds()\<close> is the difference of two instants.
  Python floats are the rationals they denote (NaN and the infinities apart); every
  comparison of the source is then the comparison of the values. Python strings are their
  UTF-8 bytes.
\<close>

record anomaly_row =
  time :: rat
  product_id :: string
  sensor_anomaly_score :: string
  product_anomaly_score :: rat

record alert_row =
  alert_time :: rat
  alert_product_id :: string
  alert_identifier :: string

text \<open>
  What \<^verbatim>\<open>ast.literal_eval\<close> can return: numbers (int, float and bool, all ordered
  against a float), and values that are not ordered against a float.
\<close>

datatype pyval =
  PyNum rat
  | PyStr string
  | PyNone
  | PyList "pyval list"
  | PyDict "(pyval \<times> pyval) list"

text \<open>
  The exceptions of the two pages: what \<^verbatim>\<open>ast.literal_eval\<close> raises on a cell that is
  no literal (ValueError and SyntaxError, and on some inputs TypeError, MemoryError or
  RecursionError), the AttributeError of \<^verbatim>\<open>.items()\<close> on a value that is no dict, and
  the TypeError of \<^verbatim>\<open>>=\<close> on a value that is no number.
\<close>

datatype py_exn =
  ValueError | SyntaxError | TypeError | AttributeError | MemoryError | RecursionError

text \<open>One entry of \<^verbatim>\<open>sensor_anomalies\<close>: the dict with keys time, sensor, score.\<close>

record sensor_anomaly =
  sa_time :: rat
  sensor :: pyval
  score :: rat

text \<open>One entry of \<^verbatim>\<open>alarms\<close>. The maximum of an empty column is NaN: \<open>None\<close>.\<close>

record alarm =
  alarm_product_id :: string
  start_time :: rat
  end_time :: rat
  duration_minutes :: rat
  max_score :: "rat option"
  sensor_anomalies :: "sensor_anomaly list"
  alerts :: "alert_row list"

section \<open>The alarm page: sensor evidence\<close>

text \<open>\<^verbatim>\<open>sensor_dict.items()\<close>: only a dict has the method.\<close>

fun py_items :: "pyval \<Rightarrow> py_exn + (pyval \<times> pyval) list" where
  "py_items (PyDict kvs) = Inr kvs"
| "py_items _ = Inl AttributeError"

text \<open>\<^verbatim>\<open>score >= 1.0\<close>: a number is compared, anything else raises TypeError.\<close>

fun score_ge :: "pyval \<Rightarrow> rat \<Rightarrow> py_exn + bool" where
  "score_ge (PyNum x) c = Inr (c \<le> x)"
| "score_ge _ c = Inl TypeError"

fun the_num :: "pyval \<Rightarrow> rat" where
  "the_num (PyNum x) = x"
| "the_num _ = 0"

text \<open>
  The inner \<^verbatim>\<open>for sensor, score in sensor_dict.items()\<close> of lines 118--126. The list
  \<^verbatim>\<open>sensor_anomalies\<close> is mutated in place, so an exception leaves the entries appended
  before it: the result is the exception, if any, and the list.
\<close>

fun append_items ::
  "rat \<Rightarrow> (pyval \<times> pyval) list \<Rightarrow> sensor_anomaly list \<Rightarrow> py_exn option \<times> sensor_anomaly list" where
  "append_items t [] acc = (None, acc)"
| "append_items t ((sensor_k, score_v) # kvs) acc =
     (case score_ge score_v 1 of
        Inl e \<Rightarrow> (Some e, acc)
      | Inr b \<Rightarrow>
          append_items t kvs
            (if b then acc @ [\<lparr>sa_time = t, sensor = sensor_k, score = the_num score_v\<rparr>]
             else acc))"

text \<open>
  The body of the \<^verbatim>\<open>try\<close> for one row (lines 117--126); \<open>literal_eval\<close> stands for
  \<^verbatim>\<open>ast.literal_eval\<close>, a library function: the exception it raises, or the value.
\<close>

definition try_row ::
  "(string \<Rightarrow> py_exn + pyval) \<Rightarrow> anomaly_row \<Rightarrow> sensor_anomaly list
     \<Rightarrow> py_exn option \<times> sensor_anomaly list" where
  "try_row literal_eval row acc =
     (case literal_eval (sensor_anomaly_score row) of
        Inl e \<Rightarrow> (Some e, acc)
      | Inr sensor_dict \<Rightarrow>
          (case py_items sensor_dict of
             Inl e \<Rightarrow> (Some e, acc)
           | Inr kvs \<Rightarrow> append_items (time row) kvs acc))"

text \<open>
  \<^verbatim>\<open>for _, row in period_data.iterrows()\<close> with its
  \<^verbatim>\<open>except (ValueError, SyntaxError): continue\<close>: these two go on with the next row, any
  other exception leaves the loop and the page.
\<close>

fun collect_sensor_anomalies ::
  "(string \<Rightarrow> py_exn + pyval) \<Rightarrow> anomaly_row list \<Rightarrow> sensor_anomaly list
     \<Rightarrow> py_exn + sensor_anomaly list" where
  "collect_sensor_anomalies literal_eval [] acc = Inr acc"
| "collect_sensor_anomalies literal_eval (row # rows) acc =
     (case try_row literal_eval row acc of
        (None, acc') \<Rightarrow> collect_sensor_anomalies literal_eval rows acc'
      | (Some e, acc') \<Rightarrow>
          if e = ValueError \<or> e = SyntaxError
          then collect_sensor_anomalies literal_eval rows acc'
          else Inl e)"

section \<open>The alarm page: the scan\<close>

text \<open>\<^verbatim>\<open>period_data["product_anomaly_score"].max()\<close>.\<close>

fun column_max :: "rat list \<Rightarrow> rat option" where
  "column_max [] = None"
| "column_max (x # xs) = Some (fold max xs x)"

text \<open>The inner \<^verbatim>\<open>while\<close> of lines 96--100, which moves \<^verbatim>\<open>end_idx\<close> forward.\<close>

function extend_run :: "anomaly_row list \<Rightarrow> rat \<Rightarrow> nat \<Rightarrow> nat" where
  "extend_run product_data alpha end_idx =
     (if end_idx + 1 < length product_data
         \<and> alpha < product_anomaly_score (product_data ! (end_idx + 1))
      then extend_run product_data alpha (end_idx + 1)
      else end_idx)"
  by pat_completeness auto
termination
  by (relation "measure (\<lambda>(product_data, alpha, end_idx). length product_data - end_idx)") auto

declare extend_run.simps [simp del]

text \<open>Lines 131--135: the alerts of the product within the closed period.\<close>

definition period_alerts :: "alert_row list \<Rightarrow> string \<Rightarrow> rat \<Rightarrow> rat \<Rightarrow> alert_row list" where
  "period_alerts alert_df pid t0 t1 =
     filter (\<lambda>a. alert_product_id a = pid \<and> t0 \<le> alert_time a \<and> alert_time a \<le> t1) alert_df"

text \<open>Line 105: \<^verbatim>\<open>(end_time - start_time).total_seconds() / 60 + 2\<close>.\<close>

definition duration_of :: "rat \<Rightarrow> rat \<Rightarrow> rat" where
  "duration_of t0 t1 = (t1 - t0) / 60 + 2"

text \<open>\<^verbatim>\<open>product_data.iloc[start_idx : end_idx + 1]\<close>.\<close>

definition iloc_slice :: "'a list \<Rightarrow> nat \<Rightarrow> nat \<Rightarrow> 'a list" where
  "iloc_slice xs lo hi = take (hi - lo) (drop lo xs)"

lemma extend_run_ge: "end_idx \<le> extend_run product_data alpha end_idx"
  by (induction product_data alpha end_idx rule: extend_run.induct)
     (subst extend_run.simps, auto)

text \<open>
  The \<^verbatim>\<open>while i < len(product_data)\<close> of lines 88--151 for one product; \<open>alarms\<close> is the
  list the page appends to.
\<close>

function alarm_loop ::
  "(string \<Rightarrow> py_exn + pyval) \<Rightarrow> alert_row list \<Rightarrow> rat \<Rightarrow> rat \<Rightarrow> string
     \<Rightarrow> anomaly_row list \<Rightarrow> nat \<Rightarrow> alarm list \<Rightarrow> py_exn + alarm list" where
  "alarm_loop literal_eval alert_df alpha beta pid product_data i alarms =
     (if i < length product_data then
        if alpha < product_anomaly_score (product_data ! i) then
          let start_idx = i;
              end_idx = extend_run product_data alpha i;
              t0 = time (product_data ! start_idx);
              t1 = time (product_data ! end_idx);
              duration = duration_of t0 t1
          in
            if beta \<le> duration then
              let period_data = iloc_slice product_data start_idx (end_idx + 1) in
              case collect_sensor_anomalies literal_eval period_data [] of
                Inl e \<Rightarrow> Inl e
              | Inr found \<Rightarrow>
                  alarm_loop literal_eval alert_df alpha beta pid product_data (end_idx + 1)
                    (alarms @
                      [\<lparr>alarm_product_id = pid, start_time = t0, end_time = t1,
                        duration_minutes = duration,
                        max_score = column_max (map product_anomaly_score period_data),
                        sensor_anomalies = found,
                        alerts = period_alerts alert_df pid t0 t1\<rparr>])
            else
              alarm_loop literal_eval alert_df alpha beta pid product_data (end_idx + 1) alarms
        else
          alarm_loop literal_eval alert_df alpha beta pid product_data (i + 1) alarms
      else Inr alarms)"
  by pat_completeness auto
termination alarm_loop
  by (relation "measure (\<lambda>(le, al, a, b, p, product_data, i, acc). length product_data - i)")
     (auto intro!: diff_less_mono2 simp: less_Suc_eq_le extend_run_ge)

declare alarm_loop.simps [simp del]

section \<open>The alarm page: products and page\<close>

text \<open>\<^verbatim>\<open>Series.unique()\<close>: the distinct values in order of first appearance.\<close>

definition unique :: "'a list \<Rightarrow> 'a list" where
  "unique xs = rev (remdups (rev xs))"

text \<open>
  Lines 80--82: the rows of the product, \<^verbatim>\<open>sort_values("time")\<close>. Rows of equal time
  keep their order here; pandas promises no order among them.
\<close>

definition product_data_of :: "anomaly_row list \<Rightarrow> string \<Rightarrow> anomaly_row list" where
  "product_data_of anomaly_df pid =
     sort_key time (filter (\<lambda>r. product_id r = pid) anomaly_df)"

text \<open>The body of \<^verbatim>\<open>for product_id in product_ids\<close> (lines 78--151).\<close>

definition product_alarms ::
  "(string \<Rightarrow> py_exn + pyval) \<Rightarrow> anomaly_row list \<Rightarrow> alert_row list \<Rightarrow> rat \<Rightarrow> rat
     \<Rightarrow> string \<Rightarrow> alarm list \<Rightarrow> py_exn + alarm list" where
  "product_alarms literal_eval anomaly_df alert_df alpha beta pid alarms =
     (let product_data = product_data_of anomaly_df pid in
      if length product_data = 0 then Inr alarms
      else alarm_loop literal_eval alert_df alpha beta pid product_data 0 alarms)"

fun products_loop ::
  "(string \<Rightarrow> py_exn + pyval) \<Rightarrow> anomaly_row list \<Rightarrow> alert_row list \<Rightarrow> rat \<Rightarrow> rat
     \<Rightarrow> string list \<Rightarrow> alarm list \<Rightarrow> py_exn + alarm list" where
  "products_loop literal_eval anomaly_df alert_df alpha beta [] alarms = Inr alarms"
| "products_loop literal_eval anomaly_df alert_df alpha beta (pid # pids) alarms =
     (case product_alarms literal_eval anomaly_df alert_df alpha beta pid alarms of
        Inl e \<Rightarrow> Inl e
      | Inr alarms' \<Rightarrow> products_loop literal_eval anomaly_df alert_df alpha beta pids alarms')"

text \<open>Lines 75--151: \<^verbatim>\<open>product_ids = sorted(anomaly_df["product_id"].unique())\<close>, then the loop.\<close>

definition detect_alarms ::
  "(string \<Rightarrow> py_exn + pyval) \<Rightarrow> anomaly_row list \<Rightarrow> alert_row list \<Rightarrow> rat \<Rightarrow> rat
     \<Rightarrow> py_exn + alarm list" where
  "detect_alarms literal_eval anomaly_df alert_df alpha beta =
     products_loop literal_eval anomaly_df alert_df alpha beta
       (sort (unique (map product_id anomaly_df))) []"

text \<open>
  The loaders of lines 19--40. A file is \<open>None\<close> when \<^verbatim>\<open>pd.read_csv\<close> raises
  FileNotFoundError: the score loader then returns \<^verbatim>\<open>None\<close>, the alert loader an empty
  frame with the three columns.
\<close>

definition load_anomaly_data :: "anomaly_row list option \<Rightarrow> anomaly_row list option" where
  "load_anomaly_data file = (case file of Some df \<Rightarrow> Some df | None \<Rightarrow> None)"

definition load_alert_data :: "alert_row list option \<Rightarrow> alert_row list" where
  "load_alert_data file = (case file of Some df \<Rightarrow> df | None \<Rightarrow> [])"

text \<open>
  Lines 53--69: the threshold and the minimum duration are read from two sliders. A slider
  delivers one of the values \<^verbatim>\<open>min_value + k * step\<close> that do not exceed
  \<^verbatim>\<open>max_value\<close>; \<open>alpha_values\<close> and \<open>beta_values\<close> are the values of the two sliders
  of the page (0.0 to 3.5 in steps of 0.1, and 2 to 30 in steps of 2).
\<close>

definition slider_values :: "rat \<Rightarrow> rat \<Rightarrow> rat \<Rightarrow> rat list" where
  "slider_values min_value max_value step =
     map (\<lambda>k. min_value + of_nat k * step)
       [0..<Suc (nat \<lfloor>(max_value - min_value) / step\<rfloor>)]"

definition alpha_values :: "rat list" where
  "alpha_values = slider_values 0 (35 / 10) (1 / 10)"

definition beta_values :: "rat list" where
  "beta_values = slider_values 2 30 2"

text \<open>A page run ends at \<^verbatim>\<open>st.stop()\<close> or shows what it computed.\<close>

datatype 'a page = Stopped | Shown 'a

definition alarm_page ::
  "(string \<Rightarrow> py_exn + pyval) \<Rightarrow> anomaly_row list option \<Rightarrow> alert_row list option
     \<Rightarrow> rat \<Rightarrow> rat \<Rightarrow> py_exn + alarm list page" where
  "alarm_page literal_eval anomaly_file alert_file alpha beta =
     (let anomaly_df = load_anomaly_data anomaly_file;
          alert_df = load_alert_data alert_file
      in case anomaly_df of
           None \<Rightarrow> Inr Stopped
         | Some df \<Rightarrow>
             (case detect_alarms literal_eval df alert_df alpha beta of
                Inl e \<Rightarrow> Inl e
              | Inr alarms \<Rightarrow> Inr (Shown alarms)))"

section \<open>The detail page\<close>

text \<open>
  A row of \<^verbatim>\<open>action_history.csv\<close>: action date, product, symptom, cause, treatment. A
  cell left empty in the file is NaN after \<^verbatim>\<open>pd.read_csv\<close>; the treatment is the one
  text column the diagnosis searches, and \<open>None\<close> is its NaN.
\<close>

record action_row =
  action_date :: rat
  action_product_id :: string
  symptom :: string
  cause :: string
  treatment :: "string option"

text \<open>Lines 117--127: the rows of the selected product within the closed window.\<close>

definition filtered_anomaly_of ::
  "anomaly_row list \<Rightarrow> string \<Rightarrow> rat \<Rightarrow> rat \<Rightarrow> anomaly_row list" where
  "filtered_anomaly_of anomaly_df selected_product start_datetime end_datetime =
     filter (\<lambda>r. product_id r = selected_product
                \<and> start_datetime \<le> time r \<and> time r \<le> end_datetime) anomaly_df"

definition filtered_alert_of ::
  "alert_row list \<Rightarrow> string \<Rightarrow> rat \<Rightarrow> rat \<Rightarrow> alert_row list" where
  "filtered_alert_of alert_df selected_product start_datetime end_datetime =
     filter (\<lambda>a. alert_product_id a = selected_product
                \<and> start_datetime \<le> alert_time a \<and> alert_time a \<le> end_datetime) alert_df"

text \<open>
  Lines 130--137: the actions of the product, newest first
  (\<^verbatim>\<open>sort_values(..., ascending=False)\<close>; actions of one date keep their order here).
\<close>

definition filtered_action_history_of :: "action_row list \<Rightarrow> string \<Rightarrow> action_row list" where
  "filtered_action_history_of action_history_df selected_product =
     (let filtered_action_history =
            filter (\<lambda>a. action_product_id a = selected_product) action_history_df
      in if length filtered_action_history > 0
         then rev (sort_key action_date (rev filtered_action_history))
         else filtered_action_history)"

text \<open>
  Lines 283--291: \<^verbatim>\<open>high_sensor_list\<close>, the (sensor, score) tuples with a score of at least
  1.0, under the same \<^verbatim>\<open>try\<close> as on the alarm page.
\<close>

fun append_high ::
  "(pyval \<times> pyval) list \<Rightarrow> (pyval \<times> pyval) list \<Rightarrow> py_exn option \<times> (pyval \<times> pyval) list" where
  "append_high [] acc = (None, acc)"
| "append_high ((sensor_k, score_v) # kvs) acc =
     (case score_ge score_v 1 of
        Inl e \<Rightarrow> (Some e, acc)
      | Inr b \<Rightarrow> append_high kvs (if b then acc @ [(sensor_k, score_v)] else acc))"

fun collect_high_sensors ::
  "(string \<Rightarrow> py_exn + pyval) \<Rightarrow> anomaly_row list \<Rightarrow> (pyval \<times> pyval) list
     \<Rightarrow> py_exn + (pyval \<times> pyval) list" where
  "collect_high_sensors literal_eval [] acc = Inr acc"
| "collect_high_sensors literal_eval (row # rows) acc =
     (case (case literal_eval (sensor_anomaly_score row) of
              Inl e \<Rightarrow> (Some e, acc)
            | Inr sensor_dict \<Rightarrow>
                (case py_items sensor_dict of
                   Inl e \<Rightarrow> (Some e, acc)
                 | Inr kvs \<Rightarrow> append_high kvs acc)) of
        (None, acc') \<Rightarrow> collect_high_sensors literal_eval rows acc'
      | (Some e, acc') \<Rightarrow>
          if e = ValueError \<or> e = SyntaxError
          then collect_high_sensors literal_eval rows acc'
          else Inl e)"

text \<open>
  \<^verbatim>\<open>str(high_sensor_list)\<close>: the list in brackets, its tuples in parentheses, both joined
  by a comma and a space; \<open>repr\<close> stands for Python's \<^verbatim>\<open>repr\<close> of a sensor key and of a
  score, a built-in.
\<close>

fun join_comma :: "string list \<Rightarrow> string" where
  "join_comma [] = []"
| "join_comma [x] = x"
| "join_comma (x # y # ys) = x @ '', '' @ join_comma (y # ys)"

definition str_of_list :: "(pyval \<Rightarrow> string) \<Rightarrow> (pyval \<times> pyval) list \<Rightarrow> string" where
  "str_of_list repr xs =
     ''['' @ join_comma (map (\<lambda>(k, v). ''('' @ repr k @ '', '' @ repr v @ '')'') xs) @ '']''"

text \<open>The three literals the rules look for, as UTF-8 bytes.\<close>

definition overheat :: string where
  "overheat = [CHR 0xEA, CHR 0xB3, CHR 0xBC, CHR 0xEC, CHR 0x97, CHR 0xB4]"

definition over_heating :: string where
  "over_heating =
     [CHR 0xEC, CHR 0x98, CHR 0xA4, CHR 0xEB, CHR 0xB2, CHR 0x84, CHR 0x20,
      CHR 0xED, CHR 0x9E, CHR 0x88, CHR 0xED, CHR 0x8C, CHR 0x85]"

definition temperature_sensor_replacement :: string where
  "temperature_sensor_replacement =
     [CHR 0xEC, CHR 0x98, CHR 0xA8, CHR 0xEB, CHR 0x8F, CHR 0x84, CHR 0xEC, CHR 0x84, CHR 0xBC,
      CHR 0xEC, CHR 0x84, CHR 0x9C, CHR 0xEA, CHR 0xB5, CHR 0x90, CHR 0xEC, CHR 0xB2, CHR 0xB4]"

datatype severity = High | Medium | Low

text \<open>
  The lines \<^verbatim>\<open>diagnosis_parts\<close> receives in lines 309--343, one constructor for each
  string literal: the severity headline (lines 314, 317, 320), the header of the
  recommendations (line 323), and the numbered recommendations of the three bands
  (High: 1 temperature sensor, 2 cooling system, 3 past fix, 4 physical inspection on site).
\<close>

datatype diagnosis_part =
  SeverityHigh | SeverityMedium | SeverityLow
  | RecommendHeader
  | High1_TemperatureSensor | High2_CoolingSystem | High3_PastFix | High4_PhysicalInspection
  | Medium1_Monitoring | Medium2_SensorCheck | Medium3_PreventiveMaintenance
  | Low1_RegularInspection | Low2_Monitoring

text \<open>\<^verbatim>\<open>max_score >= c\<close>, where the maximum of no rows is NaN and compares false.\<close>

definition max_ge :: "rat option \<Rightarrow> rat \<Rightarrow> bool" where
  "max_ge max_score' c = (case max_score' of None \<Rightarrow> False | Some m \<Rightarrow> c \<le> m)"

text \<open>
  Line 331, \<^verbatim>\<open>any(... in a[...] for a in similar_actions)\<close> over the treatments: the
  actions in their order, true at the first treatment that contains the literal, false when
  none does; at a treatment that is NaN the operator \<^verbatim>\<open>in\<close> raises TypeError.
\<close>

fun any_treatment :: "action_row list \<Rightarrow> py_exn + bool" where
  "any_treatment [] = Inr False"
| "any_treatment (a # similar_actions) =
     (case treatment a of
        None \<Rightarrow> Inl TypeError
      | Some t \<Rightarrow>
          if sublist temperature_sensor_replacement t then Inr True
          else any_treatment similar_actions)"

text \<open>
  Lines 309--343: the severity and the recommendations. The test of line 330 runs
  \<^verbatim>\<open>any\<close> only when \<^verbatim>\<open>similar_actions\<close> is not empty, and what it raises leaves the
  diagnosis before line 335 is reached.
\<close>

definition diagnosis_parts_of ::
  "(pyval \<Rightarrow> string) \<Rightarrow> rat option \<Rightarrow> (pyval \<times> pyval) list \<Rightarrow> string list
     \<Rightarrow> action_row list \<Rightarrow> py_exn + severity \<times> diagnosis_part list" where
  "diagnosis_parts_of repr max_score' high_sensor_list alert_types similar_actions =
     (let diagnosis_parts = [];
          (severity, diagnosis_parts) =
            (if max_ge max_score' (25 / 10) then (High, diagnosis_parts @ [SeverityHigh])
             else if max_ge max_score' (15 / 10) then (Medium, diagnosis_parts @ [SeverityMedium])
             else (Low, diagnosis_parts @ [SeverityLow]));
          diagnosis_parts = diagnosis_parts @ [RecommendHeader]
      in if max_ge max_score' (25 / 10) then
           let diagnosis_parts =
                 (if sublist ''temperature-sensor'' (str_of_list repr high_sensor_list)
                  then diagnosis_parts @ [High1_TemperatureSensor] else diagnosis_parts);
               diagnosis_parts =
                 (if overheat \<in> set alert_types \<or> over_heating \<in> set alert_types
                  then diagnosis_parts @ [High2_CoolingSystem] else diagnosis_parts)
           in case (if similar_actions \<noteq> [] then any_treatment similar_actions
                    else Inr False) of
                Inl e \<Rightarrow> Inl e
              | Inr past_fix \<Rightarrow>
                  let diagnosis_parts =
                        (if past_fix then diagnosis_parts @ [High3_PastFix]
                         else diagnosis_parts)
                  in Inr (severity, diagnosis_parts @ [High4_PhysicalInspection])
         else if max_ge max_score' (15 / 10) then
           let diagnosis_parts = diagnosis_parts @ [Medium1_Monitoring];
               diagnosis_parts =
                 (if high_sensor_list \<noteq> []
                  then diagnosis_parts @ [Medium2_SensorCheck] else diagnosis_parts)
           in Inr (severity, diagnosis_parts @ [Medium3_PreventiveMaintenance])
         else Inr (severity, diagnosis_parts @ [Low1_RegularInspection] @ [Low2_Monitoring]))"

text \<open>
  Lines 279--343, what the button computes from the filtered tables: the maximum score,
  \<^verbatim>\<open>high_sensor_list\<close>, \<^verbatim>\<open>alert_types\<close>, and \<^verbatim>\<open>similar_actions\<close> as the
  \<^verbatim>\<open>head(3)\<close> of the action history. (The mean score and the summary lines after line 343
  take no part in the severity or the recommendations.)
\<close>

definition ai_diagnosis ::
  "(string \<Rightarrow> py_exn + pyval) \<Rightarrow> (pyval \<Rightarrow> string) \<Rightarrow> anomaly_row list \<Rightarrow> alert_row list
     \<Rightarrow> action_row list \<Rightarrow> py_exn + severity \<times> diagnosis_part list" where
  "ai_diagnosis literal_eval repr filtered_anomaly filtered_alert filtered_action_history =
     (let max_score' = column_max (map product_anomaly_score filtered_anomaly) in
      case collect_high_sensors literal_eval filtered_anomaly [] of
        Inl e \<Rightarrow> Inl e
      | Inr high_sensor_list \<Rightarrow>
          let alert_types =
                (if length filtered_alert > 0
                 then unique (map alert_identifier filtered_alert) else []);
              similar_actions =
                (if length filtered_action_history > 0
                 then take 3 filtered_action_history else [])
          in diagnosis_parts_of repr max_score' high_sensor_list alert_types similar_actions)"

text \<open>\<^verbatim>\<open>.min()\<close> of a column: NaT (\<open>None\<close>) on a column without rows.\<close>

fun column_min :: "rat list \<Rightarrow> rat option" where
  "column_min [] = None"
| "column_min (x # xs) = Some (fold min xs x)"

text \<open>
  The page. Lines 87--110 take the defaults of the date and time inputs from the least and
  the greatest time of the score table: on a table without rows the least time is NaT, and
  \<^verbatim>\<open>time_min.time()\<close> (line 99) raises ValueError. \<open>start_datetime\<close> and
  \<open>end_datetime\<close> are what the four inputs deliver (lines 113--114), the start and the end
  chosen independently of each other. The page stops with a warning when the window holds no
  row (lines 140--142); the sensor table of lines 222--238 runs the same \<^verbatim>\<open>try\<close> over
  every row and raises what it does not catch; the diagnosis runs when the button was clicked.
\<close>

definition detail_page ::
  "(string \<Rightarrow> py_exn + pyval) \<Rightarrow> (pyval \<Rightarrow> string) \<Rightarrow> anomaly_row list \<Rightarrow> alert_row list
     \<Rightarrow> action_row list \<Rightarrow> string \<Rightarrow> rat \<Rightarrow> rat \<Rightarrow> bool
     \<Rightarrow> py_exn + (severity \<times> diagnosis_part list) option page" where
  "detail_page literal_eval repr anomaly_df alert_df action_history_df selected_product
       start_datetime end_datetime ai_diagnosis_clicked =
     (let time_min = column_min (map time anomaly_df) in
      if time_min = None then Inl ValueError
      else
        let filtered_anomaly =
              filtered_anomaly_of anomaly_df selected_product start_datetime end_datetime;
            filtered_alert =
              filtered_alert_of alert_df selected_product start_datetime end_datetime;
            filtered_action_history =
              filtered_action_history_of action_history_df selected_product
        in if length filtered_anomaly = 0 then Inr Stopped
           else
             case collect_high_sensors literal_eval filtered_anomaly [] of
               Inl e \<Rightarrow> Inl e
             | Inr shown \<Rightarrow>
                 if ai_diagnosis_clicked then
                   case ai_diagnosis literal_eval repr filtered_anomaly filtered_alert
                          filtered_action_history of
                     Inl e \<Rightarrow> Inl e
                   | Inr d \<Rightarrow> Inr (Shown (Some d))
                 else Inr (Shown None))"

section \<open>Notions of the specification\<close>

text \<open>A point is above the threshold when its aggregate score is strictly greater.\<close>

definition above :: "rat \<Rightarrow> anomaly_row \<Rightarrow> bool" where
  "above alpha r = (alpha < product_anomaly_score r)"

text \<open>
  A run: the points \<open>s..e\<close> of the series are all above the threshold, and the run cannot
  be extended: the point before \<open>s\<close> and the point after \<open>e\<close>, where there is one, are
  at or below it.
\<close>

definition maximal_run :: "anomaly_row list \<Rightarrow> rat \<Rightarrow> nat \<Rightarrow> nat \<Rightarrow> bool" where
  "maximal_run product_data alpha s e =
     (s \<le> e \<and> e < length product_data
      \<and> list_all (\<lambda>k. above alpha (product_data ! k)) [s..<Suc e]
      \<and> (s = 0 \<or> \<not> above alpha (product_data ! (s - 1)))
      \<and> (Suc e = length product_data \<or> \<not> above alpha (product_data ! Suc e)))"

text \<open>
  The index spans \<^verbatim>\<open>(start_idx, end_idx)\<close> the scan of lines 88--151 visits from index
  \<open>i\<close> on, before the test of the duration: the loop without what it appends.
\<close>

function run_spans :: "anomaly_row list \<Rightarrow> rat \<Rightarrow> nat \<Rightarrow> (nat \<times> nat) list" where
  "run_spans product_data alpha i =
     (if i < length product_data then
        if alpha < product_anomaly_score (product_data ! i) then
          (i, extend_run product_data alpha i)
            # run_spans product_data alpha (extend_run product_data alpha i + 1)
        else run_spans product_data alpha (i + 1)
      else [])"
  by pat_completeness auto
termination
  by (relation "measure (\<lambda>(product_data, alpha, i). length product_data - i)")
     (auto intro!: diff_less_mono2 simp: less_Suc_eq_le extend_run_ge)

declare run_spans.simps [simp del]

text \<open>The scan is at the start of a run whenever the point at \<open>i\<close> is above.\<close>

definition start_ok :: "anomaly_row list \<Rightarrow> rat \<Rightarrow> nat \<Rightarrow> bool" where
  "start_ok pd alpha i =
     (i < length pd \<and> above alpha (pd ! i) \<longrightarrow> i = 0 \<or> \<not> above alpha (pd ! (i - 1)))"

text \<open>A value that \<^verbatim>\<open>>=\<close> compares with a float.\<close>

fun is_num :: "pyval \<Rightarrow> bool" where
  "is_num (PyNum x) = True"
| "is_num _ = False"

text \<open>
  The evidence of one point: an entry for every sensor of its map whose score is at least
  1.0, in the order of the map.
\<close>

definition dict_evidence :: "rat \<Rightarrow> (pyval \<times> pyval) list \<Rightarrow> sensor_anomaly list" where
  "dict_evidence t kvs =
     map (\<lambda>(k, v). \<lparr>sa_time = t, sensor = k, score = the_num v\<rparr>)
       (filter (\<lambda>(k, v). 1 \<le> the_num v) kvs)"

definition row_evidence ::
  "(string \<Rightarrow> py_exn + pyval) \<Rightarrow> anomaly_row \<Rightarrow> sensor_anomaly list" where
  "row_evidence literal_eval row =
     (case literal_eval (sensor_anomaly_score row) of
        Inr (PyDict kvs) \<Rightarrow> dict_evidence (time row) kvs
      | _ \<Rightarrow> [])"

text \<open>The high sensors of one point: the pairs of its map whose score is at least 1.0.\<close>

definition row_high ::
  "(string \<Rightarrow> py_exn + pyval) \<Rightarrow> anomaly_row \<Rightarrow> (pyval \<times> pyval) list" where
  "row_high literal_eval row =
     (case literal_eval (sensor_anomaly_score row) of
        Inr (PyDict kvs) \<Rightarrow> filter (\<lambda>(k, v). 1 \<le> the_num v) kvs
      | _ \<Rightarrow> [])"

text \<open>
  A cell the scan survives: it fails to parse with one of the two exceptions the page
  catches, or it is a map whose scores are all numbers.
\<close>

definition cell_ok :: "(string \<Rightarrow> py_exn + pyval) \<Rightarrow> anomaly_row \<Rightarrow> bool" where
  "cell_ok literal_eval row =
     (case literal_eval (sensor_anomaly_score row) of
        Inl e \<Rightarrow> e = ValueError \<or> e = SyntaxError
      | Inr (PyDict kvs) \<Rightarrow> list_all (\<lambda>(k, v). is_num v) kvs
      | Inr _ \<Rightarrow> False)"

text \<open>The duration the scan computes for the span \<open>s..e\<close>, and the alarm it appends for it.\<close>

definition span_duration :: "anomaly_row list \<Rightarrow> nat \<Rightarrow> nat \<Rightarrow> rat" where
  "span_duration pd s e = duration_of (time (pd ! s)) (time (pd ! e))"

definition alarm_of_span ::
  "(string \<Rightarrow> py_exn + pyval) \<Rightarrow> alert_row list \<Rightarrow> string \<Rightarrow> anomaly_row list
     \<Rightarrow> nat \<Rightarrow> nat \<Rightarrow> alarm" where
  "alarm_of_span le alert_df pid pd s e =
     \<lparr>alarm_product_id = pid,
      start_time = time (pd ! s),
      end_time = time (pd ! e),
      duration_minutes = span_duration pd s e,
      max_score = column_max (map product_anomaly_score (iloc_slice pd s (e + 1))),
      sensor_anomalies = concat (map (row_evidence le) (iloc_slice pd s (e + 1))),
      alerts = period_alerts alert_df pid (time (pd ! s)) (time (pd ! e))\<rparr>"

text \<open>The spans that pass the test of line 109.\<close>

definition emitted_spans :: "anomaly_row list \<Rightarrow> rat \<Rightarrow> rat \<Rightarrow> nat \<Rightarrow> (nat \<times> nat) list" where
  "emitted_spans pd alpha beta i =
     filter (\<lambda>(s, e). beta \<le> span_duration pd s e) (run_spans pd alpha i)"

text \<open>
  Follows the words of the specification: the nominal sample interval of a series is the
  minimum positive gap between consecutive timestamps (in minutes; \<open>None\<close> when no gap is
  positive), and the duration of a run adds it to the time between its first and last point.
\<close>

definition nominal_sample_interval :: "anomaly_row list \<Rightarrow> rat option" where
  "nominal_sample_interval pd =
     (case filter (\<lambda>d. 0 < d) (map2 (\<lambda>t t'. t' - t) (map time pd) (tl (map time pd))) of
        [] \<Rightarrow> None
      | g # gs \<Rightarrow> Some (fold min gs g / 60))"

definition spec_duration :: "anomaly_row list \<Rightarrow> nat \<Rightarrow> nat \<Rightarrow> rat option" where
  "spec_duration pd s e =
     map_option (\<lambda>n. (time (pd ! e) - time (pd ! s)) / 60 + n) (nominal_sample_interval pd)"

section \<open>Concrete tables\<close>

text \<open>A score row and an alert row from their columns.\<close>

definition row_of :: "rat \<Rightarrow> string \<Rightarrow> string \<Rightarrow> rat \<Rightarrow> anomaly_row" where
  "row_of t p c x =
     \<lparr>time = t, product_id = p, sensor_anomaly_score = c, product_anomaly_score = x\<rparr>"

definition alert_of :: "rat \<Rightarrow> string \<Rightarrow> string \<Rightarrow> alert_row" where
  "alert_of t p i = \<lparr>alert_time = t, alert_product_id = p, alert_identifier = i\<rparr>"

text \<open>
  Scenario A of the specification: one device sampled every two minutes, scores 0.1, 0.1,
  1.5, 1.6, 1.4, 0.2. The sensor map of the fourth point does not parse (Scenario D), and
  \<open>scenario_eval\<close> is \<^verbatim>\<open>ast.literal_eval\<close> on the cells of the tables of this section.
  The alerts lie at the start and at the end of the run, outside it, and on another device.
\<close>

definition scenario_df :: "anomaly_row list" where
  "scenario_df =
     [row_of 0 ''D1'' ''{1: 0.1}'' (1 / 10),
      row_of 120 ''D1'' ''{1: 0.1}'' (1 / 10),
      row_of 240 ''D1'' ''{1: 1.5}'' (15 / 10),
      row_of 360 ''D1'' ''{1: 1.6'' (16 / 10),
      row_of 480 ''D1'' ''{1: 1.0, 2: 1.4, 3: 0.3}'' (14 / 10),
      row_of 600 ''D1'' ''{1: 0.2}'' (2 / 10)]"

definition scenario_eval :: "string \<Rightarrow> py_exn + pyval" where
  "scenario_eval c =
     (if c = ''{1: 0.1}'' then Inr (PyDict [(PyNum 1, PyNum (1 / 10))])
      else if c = ''{1: 1.5}'' then Inr (PyDict [(PyNum 1, PyNum (15 / 10))])
      else if c = ''{1: 1.0, 2: 1.4, 3: 0.3}'' then
        Inr (PyDict [(PyNum 1, PyNum 1), (PyNum 2, PyNum (14 / 10)), (PyNum 3, PyNum (3 / 10))])
      else if c = ''{1: 0.2}'' then Inr (PyDict [(PyNum 1, PyNum (2 / 10))])
      else Inl SyntaxError)"

definition scenario_alerts :: "alert_row list" where
  "scenario_alerts =
     [alert_of 480 ''D1'' ''stall'', alert_of 240 ''D1'' ''overheat'',
      alert_of 300 ''D2'' ''stall'', alert_of 120 ''D1'' ''stall'',
      alert_of 600 ''D1'' ''stall'']"

text \<open>The alarm of the threshold 1 and the minimum duration 4 on the scenario.\<close>

definition scenario_alarm :: alarm where
  "scenario_alarm =
     \<lparr>alarm_product_id = ''D1'', start_time = 240, end_time = 480, duration_minutes = 6,
      max_score = Some (16 / 10),
      sensor_anomalies =
        [\<lparr>sa_time = 240, sensor = PyNum 1, score = 15 / 10\<rparr>,
         \<lparr>sa_time = 480, sensor = PyNum 1, score = 1\<rparr>,
         \<lparr>sa_time = 480, sensor = PyNum 2, score = 14 / 10\<rparr>],
      alerts = [alert_of 480 ''D1'' ''stall'', alert_of 240 ''D1'' ''overheat'']\<rparr>"

text \<open>
  The scenario with another cell at its fourth point: \<^verbatim>\<open>{[1]: 2}\<close>, a map whose key is
  a list. \<^verbatim>\<open>ast.literal_eval\<close> raises TypeError on it (a list is not hashable), and
  \<open>unhashable_eval\<close> is \<^verbatim>\<open>ast.literal_eval\<close> on the cells of this table.
\<close>

definition unhashable_df :: "anomaly_row list" where
  "unhashable_df = scenario_df [3 := row_of 360 ''D1'' ''{[1]: 2}'' (16 / 10)]"

definition unhashable_eval :: "string \<Rightarrow> py_exn + pyval" where
  "unhashable_eval c = (if c = ''{[1]: 2}'' then Inl TypeError else scenario_eval c)"

text \<open>
  Scenario C: two runs of two points with a point below the threshold between them, and
  the alarm of such a run.
\<close>

definition two_runs_df :: "anomaly_row list" where
  "two_runs_df =
     [row_of 0 ''D1'' ''{1: 1.5}'' (15 / 10),
      row_of 120 ''D1'' ''{1: 1.5}'' (15 / 10),
      row_of 240 ''D1'' ''{1: 0.1}'' (1 / 10),
      row_of 360 ''D1'' ''{1: 1.5}'' (15 / 10),
      row_of 480 ''D1'' ''{1: 1.5}'' (15 / 10),
      row_of 600 ''D1'' ''{1: 0.1}'' (1 / 10)]"

definition plain_alarm :: "rat \<Rightarrow> rat \<Rightarrow> alarm" where
  "plain_alarm t0 t1 =
     \<lparr>alarm_product_id = ''D1'', start_time = t0, end_time = t1, duration_minutes = 4,
      max_score = Some (15 / 10),
      sensor_anomalies =
        [\<lparr>sa_time = t0, sensor = PyNum 1, score = 15 / 10\<rparr>,
         \<lparr>sa_time = t1, sensor = PyNum 1, score = 15 / 10\<rparr>],
      alerts = []\<rparr>"

text \<open>A device sampled every minute, and the alarm of its first two points.\<close>

definition one_minute_df :: "anomaly_row list" where
  "one_minute_df =
     [row_of 0 ''D1'' ''{1: 1.5}'' (15 / 10),
      row_of 60 ''D1'' ''{1: 1.5}'' (15 / 10),
      row_of 120 ''D1'' ''{1: 0.1}'' (1 / 10)]"

definition one_minute_alarm :: alarm where
  "one_minute_alarm =
     \<lparr>alarm_product_id = ''D1'', start_time = 0, end_time = 60, duration_minutes = 3,
      max_score = Some (15 / 10),
      sensor_anomalies =
        [\<lparr>sa_time = 0, sensor = PyNum 1, score = 15 / 10\<rparr>,
         \<lparr>sa_time = 60, sensor = PyNum 1, score = 15 / 10\<rparr>],
      alerts = []\<rparr>"

text \<open>
  Scenario E of the specification: a window with the maximum score 3.0, a temperature
  sensor among the high sensors, an overheating alert, and a replacement of the temperature
  sensor among the three newest actions. \<open>diagnosis_eval\<close> and \<open>diagnosis_repr\<close> are
  \<^verbatim>\<open>ast.literal_eval\<close> and \<^verbatim>\<open>repr\<close> on the values of this table.
\<close>

definition diagnosis_df :: "anomaly_row list" where
  "diagnosis_df =
     [row_of 0 ''D1'' ''{'temperature-sensor': 3.0, 'snr-db': 0.2}'' 3,
      row_of 120 ''D1'' ''{'temperature-sensor': 0.2, 'snr-db': 0.2}'' (2 / 10)]"

definition diagnosis_eval :: "string \<Rightarrow> py_exn + pyval" where
  "diagnosis_eval c =
     (if c = ''{'temperature-sensor': 3.0, 'snr-db': 0.2}'' then
        Inr (PyDict [(PyStr ''temperature-sensor'', PyNum 3), (PyStr ''snr-db'', PyNum (2 / 10))])
      else if c = ''{'temperature-sensor': 0.2, 'snr-db': 0.2}'' then
        Inr (PyDict [(PyStr ''temperature-sensor'', PyNum (2 / 10)),
                     (PyStr ''snr-db'', PyNum (2 / 10))])
      else Inl ValueError)"

definition diagnosis_repr :: "pyval \<Rightarrow> string" where
  "diagnosis_repr v =
     (case v of
        PyStr s \<Rightarrow> [CHR 0x27] @ s @ [CHR 0x27]
      | PyNum x \<Rightarrow> (if x = 3 then ''3.0'' else ''0.2'')
      | _ \<Rightarrow> ''None'')"

definition diagnosis_alerts :: "alert_row list" where
  "diagnosis_alerts = [alert_of 0 ''D1'' over_heating, alert_of 120 ''D1'' ''stall'']"

definition diagnosis_actions :: "action_row list" where
  "diagnosis_actions =
     [\<lparr>action_date = 10, action_product_id = ''D1'', symptom = ''power off'',
        cause = ''harness'', treatment = Some ''harness replacement''\<rparr>,
      \<lparr>action_date = 40, action_product_id = ''D1'', symptom = overheat,
        cause = ''sensor'', treatment = Some temperature_sensor_replacement\<rparr>]"

text \<open>The same actions and a newer one whose treatment cell is empty.\<close>

definition nan_actions :: "action_row list" where
  "nan_actions =
     diagnosis_actions
     @ [\<lparr>action_date = 50, action_product_id = ''D1'', symptom = overheat,
          cause = ''sensor'', treatment = None\<rparr>]"

section \<open>The scan finds the maximal runs\<close>

lemma extend_run_step:
  "i + 1 < length pd \<Longrightarrow> alpha < product_anomaly_score (pd ! (i + 1))
     \<Longrightarrow> extend_run pd alpha i = extend_run pd alpha (i + 1)"
  by (subst extend_run.simps) simp

lemma extend_run_done:
  "\<not> (i + 1 < length pd \<and> alpha < product_anomaly_score (pd ! (i + 1)))
     \<Longrightarrow> extend_run pd alpha i = i"
  by (subst extend_run.simps) auto

lemma extend_run_lt:
  "i < length pd \<Longrightarrow> extend_run pd alpha i < length pd"
proof (induction pd alpha i rule: extend_run.induct)
  case (1 pd alpha i)
  show ?case
  proof (cases "i + 1 < length pd \<and> alpha < product_anomaly_score (pd ! (i + 1))")
    case True
    then show ?thesis using "1.IH" by (simp add: extend_run_step)
  next
    case False
    then show ?thesis using "1.prems" extend_run_done [of i pd alpha] by simp
  qed
qed

lemma extend_run_above:
  "above alpha (pd ! i) \<Longrightarrow> i \<le> k \<Longrightarrow> k \<le> extend_run pd alpha i \<Longrightarrow> above alpha (pd ! k)"
proof (induction pd alpha i rule: extend_run.induct)
  case (1 pd alpha i)
  show ?case
  proof (cases "i + 1 < length pd \<and> alpha < product_anomaly_score (pd ! (i + 1))")
    case True
    then have e: "extend_run pd alpha i = extend_run pd alpha (i + 1)"
      by (simp add: extend_run_step)
    show ?thesis
    proof (cases "k = i")
      case True
      then show ?thesis using "1.prems" by simp
    next
      case False
      then have "i + 1 \<le> k" using "1.prems" by simp
      moreover have "above alpha (pd ! (i + 1))" using True by (simp add: above_def)
      ultimately show ?thesis using "1.IH" True "1.prems" e by simp
    qed
  next
    case False
    then have "extend_run pd alpha i = i"
      by (rule extend_run_done)
    then show ?thesis using "1.prems" by simp
  qed
qed

lemma extend_run_stop:
  "i < length pd \<Longrightarrow> Suc (extend_run pd alpha i) = length pd
     \<or> \<not> above alpha (pd ! Suc (extend_run pd alpha i))"
proof (induction pd alpha i rule: extend_run.induct)
  case (1 pd alpha i)
  show ?case
  proof (cases "i + 1 < length pd \<and> alpha < product_anomaly_score (pd ! (i + 1))")
    case True
    then show ?thesis using "1.IH" by (simp add: extend_run_step)
  next
    case False
    then have "extend_run pd alpha i = i"
      by (rule extend_run_done)
    then show ?thesis using False "1.prems" by (auto simp: above_def)
  qed
qed

lemma maximal_run_iff:
  "maximal_run pd alpha s e \<longleftrightarrow>
     s \<le> e \<and> e < length pd \<and> (\<forall>k. s \<le> k \<and> k \<le> e \<longrightarrow> above alpha (pd ! k))
     \<and> (s = 0 \<or> \<not> above alpha (pd ! (s - 1)))
     \<and> (Suc e = length pd \<or> \<not> above alpha (pd ! Suc e))"
  by (simp add: maximal_run_def list_all_iff Ball_def less_Suc_eq_le del: upt_Suc)

lemma run_spans_above:
  "i < length pd \<Longrightarrow> above alpha (pd ! i) \<Longrightarrow>
     run_spans pd alpha i =
       (i, extend_run pd alpha i) # run_spans pd alpha (extend_run pd alpha i + 1)"
  by (subst run_spans.simps) (simp add: above_def)

lemma run_spans_below:
  "i < length pd \<Longrightarrow> \<not> above alpha (pd ! i) \<Longrightarrow>
     run_spans pd alpha i = run_spans pd alpha (i + 1)"
  by (subst run_spans.simps) (simp add: above_def)

lemma run_spans_end: "\<not> i < length pd \<Longrightarrow> run_spans pd alpha i = []"
  by (subst run_spans.simps) simp

lemma start_ok_after_run:
  "i < length pd \<Longrightarrow> start_ok pd alpha (extend_run pd alpha i + 1)"
  using extend_run_stop [of i pd alpha] by (auto simp: start_ok_def)

lemma start_ok_after_below:
  "\<not> above alpha (pd ! i) \<Longrightarrow> start_ok pd alpha (i + 1)"
  by (simp add: start_ok_def)

lemma run_found_maximal:
  assumes "i < length pd" "above alpha (pd ! i)" "start_ok pd alpha i"
  shows "maximal_run pd alpha i (extend_run pd alpha i)"
  unfolding maximal_run_iff
  using assms extend_run_ge [of i pd alpha] extend_run_lt [of i pd alpha]
    extend_run_stop [of i pd alpha] extend_run_above [of alpha pd i]
  by (auto simp: start_ok_def)

lemma run_spans_sound:
  "start_ok pd alpha i \<Longrightarrow> (s, e) \<in> set (run_spans pd alpha i)
     \<Longrightarrow> maximal_run pd alpha s e \<and> i \<le> s"
proof (induction pd alpha i rule: run_spans.induct)
  case (1 pd alpha i)
  show ?case
  proof (cases "i < length pd")
    case False
    then show ?thesis using "1.prems" by (simp add: run_spans_end)
  next
    case inb: True
    show ?thesis
    proof (cases "above alpha (pd ! i)")
      case True
      have a: "alpha < product_anomaly_score (pd ! i)" using True by (simp add: above_def)
      from "1.prems"(2) inb True
      consider "(s, e) = (i, extend_run pd alpha i)"
        | "(s, e) \<in> set (run_spans pd alpha (extend_run pd alpha i + 1))"
        by (auto simp: run_spans_above)
      then show ?thesis
      proof cases
        case 1
        then show ?thesis using run_found_maximal [OF inb True "1.prems"(1)] by simp
      next
        case 2
        have "maximal_run pd alpha s e \<and> extend_run pd alpha i + 1 \<le> s"
          using "1.IH"(1) [OF inb a start_ok_after_run [OF inb] 2] .
        then show ?thesis using extend_run_ge [of i pd alpha] by simp
      qed
    next
      case False
      have a: "\<not> alpha < product_anomaly_score (pd ! i)" using False by (simp add: above_def)
      have "(s, e) \<in> set (run_spans pd alpha (i + 1))"
        using "1.prems"(2) inb False by (simp add: run_spans_below)
      then have "maximal_run pd alpha s e \<and> i + 1 \<le> s"
        using "1.IH"(2) [OF inb a start_ok_after_below [OF False]] by simp
      then show ?thesis by simp
    qed
  qed
qed

lemma run_spans_complete:
  "maximal_run pd alpha s e \<Longrightarrow> i \<le> s \<Longrightarrow> (s, e) \<in> set (run_spans pd alpha i)"
proof (induction pd alpha i rule: run_spans.induct)
  case (1 pd alpha i)
  note mr = "1.prems"(1) [unfolded maximal_run_iff]
  have inb: "i < length pd" using mr "1.prems"(2) by simp
  show ?case
  proof (cases "above alpha (pd ! i)")
    case True
    have a: "alpha < product_anomaly_score (pd ! i)" using True by (simp add: above_def)
    let ?e = "extend_run pd alpha i"
    have ge: "i \<le> ?e" by (rule extend_run_ge)
    have lt: "?e < length pd" using inb by (rule extend_run_lt)
    have ab: "\<And>k. i \<le> k \<Longrightarrow> k \<le> ?e \<Longrightarrow> above alpha (pd ! k)"
      using extend_run_above [OF True] by blast
    have st: "Suc ?e = length pd \<or> \<not> above alpha (pd ! Suc ?e)"
      using inb by (rule extend_run_stop)
    show ?thesis
    proof (cases "s = i")
      case True
      have "\<not> e < ?e"
      proof
        assume "e < ?e"
        then have "Suc e \<le> ?e" "i \<le> Suc e" using mr True by simp_all
        then have "above alpha (pd ! Suc e)" "Suc e < length pd" using ab lt by simp_all
        then show False using mr by simp
      qed
      moreover have "\<not> ?e < e"
      proof
        assume "?e < e"
        then have "s \<le> Suc ?e" "Suc ?e \<le> e" using True ge by simp_all
        then have "above alpha (pd ! Suc ?e)" "Suc ?e < length pd" using mr by simp_all
        then show False using st by simp
      qed
      ultimately have "e = ?e" by simp
      then show ?thesis using True inb \<open>above alpha (pd ! i)\<close> by (simp add: run_spans_above)
    next
      case False
      then have lt_s: "i < s" using "1.prems"(2) by simp
      have "\<not> s \<le> Suc ?e"
      proof
        assume le: "s \<le> Suc ?e"
        have "\<not> above alpha (pd ! (s - 1))" using mr lt_s by simp
        moreover have "above alpha (pd ! (s - 1))" using ab [of "s - 1"] lt_s le by simp
        ultimately show False by simp
      qed
      then have "?e + 1 \<le> s" by simp
      then have "(s, e) \<in> set (run_spans pd alpha (?e + 1))"
        using "1.IH"(1) [OF inb a "1.prems"(1)] by simp
      then show ?thesis using inb True by (simp add: run_spans_above)
    qed
  next
    case False
    have a: "\<not> alpha < product_anomaly_score (pd ! i)" using False by (simp add: above_def)
    have "s \<noteq> i" using mr False by auto
    then have "i + 1 \<le> s" using "1.prems"(2) by simp
    then have "(s, e) \<in> set (run_spans pd alpha (i + 1))"
      using "1.IH"(2) [OF inb a "1.prems"(1)] by simp
    then show ?thesis using inb False by (simp add: run_spans_below)
  qed
qed

lemma run_spans_from:
  "(s, e) \<in> set (run_spans pd alpha i) \<Longrightarrow> i \<le> s \<and> s \<le> e \<and> e < length pd"
proof (induction pd alpha i rule: run_spans.induct)
  case (1 pd alpha i)
  show ?case
  proof (cases "i < length pd")
    case False
    then show ?thesis using "1.prems" by (simp add: run_spans_end)
  next
    case inb: True
    show ?thesis
    proof (cases "above alpha (pd ! i)")
      case True
      have a: "alpha < product_anomaly_score (pd ! i)" using True by (simp add: above_def)
      from "1.prems" inb True
      consider "(s, e) = (i, extend_run pd alpha i)"
        | "(s, e) \<in> set (run_spans pd alpha (extend_run pd alpha i + 1))"
        by (auto simp: run_spans_above)
      then show ?thesis
      proof cases
        case 1
        then show ?thesis
          using extend_run_ge [of i pd alpha] extend_run_lt [OF inb, of alpha] by simp
      next
        case 2
        then show ?thesis
          using "1.IH"(1) [OF inb a] extend_run_ge [of i pd alpha] by simp
      qed
    next
      case False
      have a: "\<not> alpha < product_anomaly_score (pd ! i)" using False by (simp add: above_def)
      have "(s, e) \<in> set (run_spans pd alpha (i + 1))"
        using "1.prems" inb False by (simp add: run_spans_below)
      then show ?thesis using "1.IH"(2) [OF inb a] by simp
    qed
  qed
qed

lemma run_spans_sorted:
  "sorted_wrt (\<lambda>p q. snd p + 1 < fst q) (run_spans pd alpha i)"
proof (induction pd alpha i rule: run_spans.induct)
  case (1 pd alpha i)
  show ?case
  proof (cases "i < length pd")
    case False
    then show ?thesis by (simp add: run_spans_end)
  next
    case inb: True
    show ?thesis
    proof (cases "above alpha (pd ! i)")
      case True
      have a: "alpha < product_anomaly_score (pd ! i)" using True by (simp add: above_def)
      let ?e = "extend_run pd alpha i"
      have far: "?e + 1 < fst q" if q: "q \<in> set (run_spans pd alpha (?e + 1))" for q
      proof -
        obtain s e where qe: "q = (s, e)" by (cases q)
        have le: "?e + 1 \<le> s" using run_spans_from [of s e pd alpha "?e + 1"] q qe by simp
        have "maximal_run pd alpha s e"
          using run_spans_sound [OF start_ok_after_run [OF inb]] q qe by simp
        then have "above alpha (pd ! s)" "s < length pd"
          by (simp_all add: maximal_run_iff)
        then have "s \<noteq> ?e + 1" using extend_run_stop [OF inb, of alpha] by auto
        then show ?thesis using le qe by simp
      qed
      show ?thesis
        using "1.IH"(1) [OF inb a] far inb True by (simp add: run_spans_above)
    next
      case False
      have a: "\<not> alpha < product_anomaly_score (pd ! i)" using False by (simp add: above_def)
      show ?thesis using "1.IH"(2) [OF inb a] inb False by (simp add: run_spans_below)
    qed
  qed
qed

lemma start_ok_0: "start_ok pd alpha 0"
  by (simp add: start_ok_def)

lemma run_spans_cover:
  "i \<le> k \<Longrightarrow> k < length pd \<Longrightarrow> above alpha (pd ! k)
     \<Longrightarrow> \<exists>(s, e) \<in> set (run_spans pd alpha i). s \<le> k \<and> k \<le> e"
proof (induction pd alpha i rule: run_spans.induct)
  case (1 pd alpha i)
  have inb: "i < length pd" using "1.prems" by simp
  show ?case
  proof (cases "above alpha (pd ! i)")
    case True
    have a: "alpha < product_anomaly_score (pd ! i)" using True by (simp add: above_def)
    show ?thesis
    proof (cases "k \<le> extend_run pd alpha i")
      case True
      then show ?thesis using inb \<open>above alpha (pd ! i)\<close> "1.prems"(1)
        by (simp add: run_spans_above)
    next
      case False
      then have "extend_run pd alpha i + 1 \<le> k" by simp
      from "1.IH"(1) [OF inb a this "1.prems"(2,3)] show ?thesis
        using inb True by (simp add: run_spans_above)
    qed
  next
    case False
    have a: "\<not> alpha < product_anomaly_score (pd ! i)" using False by (simp add: above_def)
    have "k \<noteq> i" using False "1.prems"(3) by auto
    then have "i + 1 \<le> k" using "1.prems"(1) by simp
    from "1.IH"(2) [OF inb a this "1.prems"(2,3)] show ?thesis
      using inb False by (simp add: run_spans_below)
  qed
qed

lemma in_run_iff_above:
  assumes "k < length pd"
  shows "(\<exists>s e. maximal_run pd alpha s e \<and> s \<le> k \<and> k \<le> e) \<longleftrightarrow> above alpha (pd ! k)"
proof
  assume "\<exists>s e. maximal_run pd alpha s e \<and> s \<le> k \<and> k \<le> e"
  then show "above alpha (pd ! k)" by (auto simp: maximal_run_iff)
next
  assume "above alpha (pd ! k)"
  then obtain s e where "(s, e) \<in> set (run_spans pd alpha 0)" "s \<le> k" "k \<le> e"
    using run_spans_cover [of 0 k pd alpha] assms by auto
  then show "\<exists>s e. maximal_run pd alpha s e \<and> s \<le> k \<and> k \<le> e"
    using run_spans_sound [OF start_ok_0] by blast
qed

lemma run_spans_all_above:
  assumes ne: "pd \<noteq> []" and all: "\<forall>r \<in> set pd. above alpha r"
  shows "run_spans pd alpha 0 = [(0, length pd - 1)]"
proof -
  have inb: "0 < length pd" using ne by simp
  have a0: "above alpha (pd ! 0)" using all inb nth_mem by blast
  let ?e = "extend_run pd alpha 0"
  have lt: "?e < length pd" using inb by (rule extend_run_lt)
  have "Suc ?e = length pd"
  proof (rule ccontr)
    assume n: "Suc ?e \<noteq> length pd"
    then have "Suc ?e < length pd" using lt by simp
    then have "above alpha (pd ! Suc ?e)" using all nth_mem by blast
    then show False using extend_run_stop [OF inb, of alpha] n by simp
  qed
  then have e: "?e = length pd - 1" by simp
  have "run_spans pd alpha (?e + 1) = []"
    using \<open>Suc ?e = length pd\<close> by (simp add: run_spans_end)
  then show ?thesis using run_spans_above [OF inb a0] e by simp
qed

section \<open>The evidence of a span\<close>

lemma append_items_None:
  "append_items t kvs acc = (None, out) \<Longrightarrow> out = acc @ dict_evidence t kvs"
proof (induction kvs arbitrary: acc)
  case Nil
  then show ?case by (simp add: dict_evidence_def)
next
  case (Cons kv kvs)
  obtain k v where kv: "kv = (k, v)" by (cases kv)
  show ?case
  proof (cases v)
    case (PyNum x)
    show ?thesis
    proof (cases "1 \<le> x")
      case True
      then have "append_items t kvs (acc @ [\<lparr>sa_time = t, sensor = k, score = x\<rparr>]) = (None, out)"
        using Cons.prems kv PyNum by simp
      from Cons.IH [OF this] show ?thesis using kv PyNum True
        by (simp add: dict_evidence_def)
    next
      case False
      then have "append_items t kvs acc = (None, out)"
        using Cons.prems kv PyNum by simp
      from Cons.IH [OF this] show ?thesis using kv PyNum False
        by (simp add: dict_evidence_def)
    qed
  qed (use Cons.prems kv in simp_all)
qed

lemma py_items_Inl: "py_items v = Inl e \<Longrightarrow> e = AttributeError"
  by (cases v) simp_all

lemma append_items_Some:
  "append_items t kvs acc = (Some e, out) \<Longrightarrow> e = TypeError"
proof (induction kvs arbitrary: acc)
  case Nil
  then show ?case by simp
next
  case (Cons kv kvs)
  obtain k v where kv: "kv = (k, v)" by (cases kv)
  show ?case
  proof (cases v)
    case (PyNum x)
    then show ?thesis using Cons.prems Cons.IH kv by (auto split: if_splits)
  qed (use Cons.prems kv in simp_all)
qed

lemma append_items_nums:
  "list_all (\<lambda>(k, v). is_num v) kvs \<Longrightarrow> fst (append_items t kvs acc) = None"
proof (induction kvs arbitrary: acc)
  case Nil
  then show ?case by simp
next
  case (Cons kv kvs)
  obtain k v where kv: "kv = (k, v)" by (cases kv)
  show ?case using Cons kv by (cases v) simp_all
qed

lemma try_row_None:
  "try_row le row acc = (None, out) \<Longrightarrow> out = acc @ row_evidence le row"
  by (auto simp: try_row_def row_evidence_def dest: append_items_None
      split: sum.splits pyval.splits)

lemma try_row_caught:
  "try_row le row acc = (Some e, out) \<Longrightarrow> e = ValueError \<or> e = SyntaxError
     \<Longrightarrow> out = acc \<and> row_evidence le row = [] \<and> le (sensor_anomaly_score row) = Inl e"
  by (auto simp: try_row_def row_evidence_def dest: append_items_Some py_items_Inl
      split: sum.splits pyval.splits)

lemma try_row_ok:
  "cell_ok le row \<Longrightarrow>
     try_row le row acc = (None, acc @ row_evidence le row)
     \<or> (\<exists>e. try_row le row acc = (Some e, acc) \<and> (e = ValueError \<or> e = SyntaxError))"
proof (cases "le (sensor_anomaly_score row)")
  case (Inl e)
  assume "cell_ok le row"
  then show ?thesis using Inl by (simp add: cell_ok_def try_row_def)
next
  case (Inr v)
  assume ok: "cell_ok le row"
  then obtain kvs where v: "v = PyDict kvs" and nums: "list_all (\<lambda>(k, v). is_num v) kvs"
    using Inr by (cases v) (simp_all add: cell_ok_def)
  obtain r out where ap: "append_items (time row) kvs acc = (r, out)"
    by (cases "append_items (time row) kvs acc")
  have "r = None" using append_items_nums [OF nums, of "time row" acc] ap by simp
  then have "try_row le row acc = (None, out)" using Inr v ap by (simp add: try_row_def)
  then show ?thesis using try_row_None by blast
qed

lemma collect_Inr:
  "collect_sensor_anomalies le rows acc = Inr out
     \<Longrightarrow> out = acc @ concat (map (row_evidence le) rows)"
proof (induction rows arbitrary: acc)
  case Nil
  then show ?case by simp
next
  case (Cons row rows)
  obtain r acc' where t: "try_row le row acc = (r, acc')" by (cases "try_row le row acc")
  show ?case
  proof (cases r)
    case None
    then have "acc' = acc @ row_evidence le row" using t try_row_None by blast
    moreover have "collect_sensor_anomalies le rows acc' = Inr out"
      using Cons.prems t None by simp
    ultimately show ?thesis using Cons.IH [of acc'] by simp
  next
    case (Some e)
    then have c: "e = ValueError \<or> e = SyntaxError"
      using Cons.prems t by (simp split: if_splits)
    then have "acc' = acc \<and> row_evidence le row = []"
      using try_row_caught t Some by blast
    moreover have "collect_sensor_anomalies le rows acc' = Inr out"
      using Cons.prems t Some c by (simp split: if_splits)
    ultimately show ?thesis using Cons.IH [of acc'] by simp
  qed
qed

lemma collect_total:
  "list_all (cell_ok le) rows \<Longrightarrow> \<exists>out. collect_sensor_anomalies le rows acc = Inr out"
proof (induction rows arbitrary: acc)
  case Nil
  then show ?case by simp
next
  case (Cons row rows)
  then have ok: "cell_ok le row" and rest: "list_all (cell_ok le) rows" by simp_all
  from try_row_ok [OF ok, of acc] show ?case
  proof
    assume "try_row le row acc = (None, acc @ row_evidence le row)"
    then show ?thesis using Cons.IH [OF rest] by simp
  next
    assume "\<exists>e. try_row le row acc = (Some e, acc) \<and> (e = ValueError \<or> e = SyntaxError)"
    then show ?thesis using Cons.IH [OF rest] by auto
  qed
qed

lemma set_iloc_slice: "set (iloc_slice xs lo hi) \<subseteq> set xs"
  unfolding iloc_slice_def by (meson set_take_subset set_drop_subset subset_trans)

lemma iloc_slice_nth:
  assumes "e < length pd" "s \<le> e"
  shows "iloc_slice pd s (e + 1) = map ((!) pd) [s..<Suc e]"
  unfolding iloc_slice_def
proof (rule nth_equalityI)
  show "length (take (e + 1 - s) (drop s pd)) = length (map ((!) pd) [s..<Suc e])"
    using assms by simp
next
  fix i
  assume "i < length (take (e + 1 - s) (drop s pd))"
  then have i: "s + i < Suc e" using assms by simp
  then have "[s..<Suc e] ! i = s + i" by (rule nth_upt)
  then show "take (e + 1 - s) (drop s pd) ! i = map ((!) pd) [s..<Suc e] ! i"
    using i assms by (simp del: upt_Suc)
qed

lemma column_max_Max:
  "xs \<noteq> [] \<Longrightarrow> column_max xs = Some (Max (set xs))"
  by (cases xs) (simp_all add: Max.set_eq_fold [symmetric])

lemma iloc_slice_upt:
  assumes "hi \<le> length xs"
  shows "iloc_slice xs lo hi = map ((!) xs) [lo..<hi]"
  unfolding iloc_slice_def
proof (rule nth_equalityI)
  show "length (take (hi - lo) (drop lo xs)) = length (map ((!) xs) [lo..<hi])"
    using assms by simp
next
  fix i
  assume "i < length (take (hi - lo) (drop lo xs))"
  then have i: "lo + i < hi" using assms by simp
  then have "[lo..<hi] ! i = lo + i" by (rule nth_upt)
  then show "take (hi - lo) (drop lo xs) ! i = map ((!) xs) [lo..<hi] ! i"
    using i assms by simp
qed

lemma iloc_slice_split:
  assumes "s \<le> k" "k \<le> e" "e < length pd"
  shows "iloc_slice pd s (e + 1) = iloc_slice pd s k @ pd ! k # iloc_slice pd (k + 1) (e + 1)"
proof -
  have "[s..<k + (e + 1 - k)] = [s..<k] @ [k..<k + (e + 1 - k)]"
    using assms(1) by (rule upt_add_eq_append)
  moreover have "k + (e + 1 - k) = e + 1" using assms(2) by simp
  moreover have "[k..<e + 1] = k # [k + 1..<e + 1]"
    using assms(2) upt_conv_Cons [of k "e + 1"] by simp
  ultimately have "[s..<e + 1] = [s..<k] @ k # [k + 1..<e + 1]" by simp
  then show ?thesis using assms by (simp add: iloc_slice_upt del: upt_Suc)
qed

lemma row_evidence_failed:
  "le (sensor_anomaly_score r) = Inl x \<Longrightarrow> row_evidence le r = []"
  by (simp add: row_evidence_def)

lemma row_evidence_time: "x \<in> set (row_evidence le r) \<Longrightarrow> sa_time x = time r"
  by (auto simp: row_evidence_def dict_evidence_def split: sum.splits pyval.splits)

lemma sorted_evidence:
  "sorted (map time rows) \<Longrightarrow> sorted (map sa_time (concat (map (row_evidence le) rows)))"
proof (induction rows)
  case Nil
  then show ?case by simp
next
  case (Cons r rows)
  have "sa_time x \<le> sa_time y"
    if "x \<in> set (row_evidence le r)" "r' \<in> set rows" "y \<in> set (row_evidence le r')" for x y r'
    using that Cons.prems row_evidence_time [of x le r] row_evidence_time [of y le r'] by auto
  moreover have "sorted (map sa_time (row_evidence le r))"
    using row_evidence_time [of _ le r] by (auto simp: sorted_wrt_iff_nth_less)
  ultimately show ?case using Cons by (auto simp: sorted_append)
qed

lemma sorted_iloc_slice: "sorted (map time pd) \<Longrightarrow> sorted (map time (iloc_slice pd lo hi))"
  unfolding iloc_slice_def by (simp add: take_map [symmetric] drop_map [symmetric])

lemma row_evidence_mem:
  "x \<in> set (row_evidence le r) \<longleftrightarrow>
     (\<exists>kvs name v. le (sensor_anomaly_score r) = Inr (PyDict kvs)
        \<and> (name, v) \<in> set kvs \<and> 1 \<le> the_num v
        \<and> x = \<lparr>sa_time = time r, sensor = name, score = the_num v\<rparr>)"
proof (cases "le (sensor_anomaly_score r)")
  case (Inl e)
  then show ?thesis by (simp add: row_evidence_def)
next
  case (Inr d)
  then show ?thesis
    by (cases d) (auto simp: row_evidence_def dict_evidence_def)
qed

lemma collect_not_caught:
  "collect_sensor_anomalies le rows acc = Inl x \<Longrightarrow> x \<noteq> ValueError \<and> x \<noteq> SyntaxError"
proof (induction rows arbitrary: acc)
  case Nil
  then show ?case by simp
next
  case (Cons row rows)
  obtain r acc' where t: "try_row le row acc = (r, acc')" by (cases "try_row le row acc")
  show ?case
  proof (cases r)
    case None
    then show ?thesis using Cons t by simp
  next
    case (Some e)
    then show ?thesis using Cons t by (auto split: if_splits)
  qed
qed

section \<open>The alarms of a product\<close>

lemma alarm_loop_end:
  "\<not> i < length pd \<Longrightarrow> alarm_loop le al alpha beta pid pd i acc = Inr acc"
  by (subst alarm_loop.simps) simp

lemma alarm_loop_below:
  "i < length pd \<Longrightarrow> \<not> above alpha (pd ! i) \<Longrightarrow>
     alarm_loop le al alpha beta pid pd i acc = alarm_loop le al alpha beta pid pd (i + 1) acc"
  by (subst alarm_loop.simps) (simp add: above_def)

lemma alarm_loop_short:
  "i < length pd \<Longrightarrow> above alpha (pd ! i)
     \<Longrightarrow> \<not> beta \<le> span_duration pd i (extend_run pd alpha i) \<Longrightarrow>
     alarm_loop le al alpha beta pid pd i acc =
       alarm_loop le al alpha beta pid pd (extend_run pd alpha i + 1) acc"
  by (subst alarm_loop.simps) (simp add: above_def span_duration_def Let_def)

lemma alarm_loop_raise:
  "i < length pd \<Longrightarrow> above alpha (pd ! i)
     \<Longrightarrow> beta \<le> span_duration pd i (extend_run pd alpha i)
     \<Longrightarrow> collect_sensor_anomalies le (iloc_slice pd i (extend_run pd alpha i + 1)) [] = Inl x
     \<Longrightarrow> alarm_loop le al alpha beta pid pd i acc = Inl x"
  by (subst alarm_loop.simps) (simp add: above_def span_duration_def Let_def)

lemma alarm_loop_emit:
  "i < length pd \<Longrightarrow> above alpha (pd ! i)
     \<Longrightarrow> beta \<le> span_duration pd i (extend_run pd alpha i)
     \<Longrightarrow> collect_sensor_anomalies le (iloc_slice pd i (extend_run pd alpha i + 1)) [] = Inr found
     \<Longrightarrow> alarm_loop le al alpha beta pid pd i acc =
         alarm_loop le al alpha beta pid pd (extend_run pd alpha i + 1)
           (acc @ [alarm_of_span le al pid pd i (extend_run pd alpha i)])"
  by (subst alarm_loop.simps)
     (auto simp: above_def span_duration_def Let_def alarm_of_span_def dest: collect_Inr)

lemma emitted_spans_end: "\<not> i < length pd \<Longrightarrow> emitted_spans pd alpha beta i = []"
  by (simp add: emitted_spans_def run_spans_end)

lemma emitted_spans_below:
  "i < length pd \<Longrightarrow> \<not> above alpha (pd ! i) \<Longrightarrow>
     emitted_spans pd alpha beta i = emitted_spans pd alpha beta (i + 1)"
  by (simp add: emitted_spans_def run_spans_below)

lemma emitted_spans_short:
  "i < length pd \<Longrightarrow> above alpha (pd ! i)
     \<Longrightarrow> \<not> beta \<le> span_duration pd i (extend_run pd alpha i) \<Longrightarrow>
     emitted_spans pd alpha beta i = emitted_spans pd alpha beta (extend_run pd alpha i + 1)"
  by (simp add: emitted_spans_def run_spans_above)

lemma emitted_spans_emit:
  "i < length pd \<Longrightarrow> above alpha (pd ! i)
     \<Longrightarrow> beta \<le> span_duration pd i (extend_run pd alpha i) \<Longrightarrow>
     emitted_spans pd alpha beta i =
       (i, extend_run pd alpha i) # emitted_spans pd alpha beta (extend_run pd alpha i + 1)"
  by (simp add: emitted_spans_def run_spans_above)

lemma alarm_loop_Inr:
  "alarm_loop le al alpha beta pid pd i acc = Inr out \<Longrightarrow>
     out = acc @ map (\<lambda>(s, e). alarm_of_span le al pid pd s e) (emitted_spans pd alpha beta i)"
proof (induction "length pd - i" arbitrary: i acc rule: less_induct)
  case less
  show ?case
  proof (cases "i < length pd")
    case False
    then show ?thesis using less.prems by (simp add: alarm_loop_end emitted_spans_end)
  next
    case inb: True
    let ?e = "extend_run pd alpha i"
    have dec: "length pd - (?e + 1) < length pd - i"
      using inb extend_run_ge [of i pd alpha] by simp
    show ?thesis
    proof (cases "above alpha (pd ! i)")
      case False
      have "length pd - (i + 1) < length pd - i" using inb by simp
      from less.hyps [OF this] show ?thesis
        using less.prems inb False by (simp add: alarm_loop_below emitted_spans_below)
    next
      case True
      show ?thesis
      proof (cases "beta \<le> span_duration pd i ?e")
        case False
        from less.hyps [OF dec] show ?thesis
          using less.prems inb True False by (simp add: alarm_loop_short emitted_spans_short)
      next
        case long: True
        show ?thesis
        proof (cases "collect_sensor_anomalies le (iloc_slice pd i (?e + 1)) []")
          case (Inl x)
          then show ?thesis using less.prems alarm_loop_raise [OF inb True long Inl] by simp
        next
          case (Inr found)
          have "alarm_loop le al alpha beta pid pd (?e + 1)
                  (acc @ [alarm_of_span le al pid pd i ?e]) = Inr out"
            using less.prems alarm_loop_emit [OF inb True long Inr] by simp
          from less.hyps [OF dec this] show ?thesis
            using inb True long by (simp add: emitted_spans_emit)
        qed
      qed
    qed
  qed
qed

lemma alarm_loop_total:
  assumes ok: "list_all (cell_ok le) pd"
  shows "\<exists>out. alarm_loop le al alpha beta pid pd i acc = Inr out"
proof (induction "length pd - i" arbitrary: i acc rule: less_induct)
  case less
  show ?case
  proof (cases "i < length pd")
    case False
    then show ?thesis by (simp add: alarm_loop_end)
  next
    case inb: True
    let ?e = "extend_run pd alpha i"
    have dec: "length pd - (?e + 1) < length pd - i"
      using inb extend_run_ge [of i pd alpha] by simp
    show ?thesis
    proof (cases "above alpha (pd ! i)")
      case False
      have "length pd - (i + 1) < length pd - i" using inb by simp
      from less.hyps [OF this] show ?thesis
        using inb False by (simp add: alarm_loop_below)
    next
      case True
      show ?thesis
      proof (cases "beta \<le> span_duration pd i ?e")
        case False
        from less.hyps [OF dec] show ?thesis
          using inb True False by (simp add: alarm_loop_short)
      next
        case long: True
        have "list_all (cell_ok le) (iloc_slice pd i (?e + 1))"
          using ok set_iloc_slice [of pd i "?e + 1"] by (auto simp: list_all_iff)
        then obtain found where
          "collect_sensor_anomalies le (iloc_slice pd i (?e + 1)) [] = Inr found"
          using collect_total by blast
        from alarm_loop_emit [OF inb True long this] less.hyps [OF dec]
        show ?thesis by simp
      qed
    qed
  qed
qed

lemma emitted_spans_iff:
  "(s, e) \<in> set (emitted_spans pd alpha beta 0)
     \<longleftrightarrow> maximal_run pd alpha s e \<and> beta \<le> span_duration pd s e"
  using run_spans_sound [OF start_ok_0, of s e pd alpha] run_spans_complete [of pd alpha s e 0]
  by (auto simp: emitted_spans_def)

lemma product_alarms_Inr:
  assumes "product_alarms le df al alpha beta pid acc = Inr out"
  shows "out = acc @ map (\<lambda>(s, e). alarm_of_span le al pid (product_data_of df pid) s e)
                     (emitted_spans (product_data_of df pid) alpha beta 0)"
proof (cases "length (product_data_of df pid) = 0")
  case True
  then show ?thesis using assms
    by (simp add: product_alarms_def emitted_spans_end)
next
  case False
  then have "alarm_loop le al alpha beta pid (product_data_of df pid) 0 acc = Inr out"
    using assms by (simp add: product_alarms_def)
  then show ?thesis by (rule alarm_loop_Inr)
qed

lemma product_alarms_total:
  assumes "list_all (cell_ok le) (product_data_of df pid)"
  shows "\<exists>out. product_alarms le df al alpha beta pid acc = Inr out"
  using alarm_loop_total [OF assms, of al alpha beta pid 0 acc]
  by (auto simp: product_alarms_def Let_def)

lemma sorted_product_data: "sorted (map time (product_data_of df pid))"
  by (simp add: product_data_of_def)

lemma sorted_time_le:
  "sorted (map time pd) \<Longrightarrow> s \<le> e \<Longrightarrow> e < length pd \<Longrightarrow> time (pd ! s) \<le> time (pd ! e)"
  using sorted_nth_mono [of "map time pd" s e] by simp

lemma alarm_in_out:
  assumes "product_alarms le df al alpha beta pid [] = Inr out"
  shows "a \<in> set out \<longleftrightarrow>
     (\<exists>s e. maximal_run (product_data_of df pid) alpha s e
        \<and> beta \<le> span_duration (product_data_of df pid) s e
        \<and> a = alarm_of_span le al pid (product_data_of df pid) s e)"
  using product_alarms_Inr [OF assms] emitted_spans_iff [of _ _ "product_data_of df pid" alpha beta]
  by (auto simp: image_iff) force

lemma duration_of_span [simp]:
  "duration_minutes (alarm_of_span le al pid pd s e) = span_duration pd s e"
  by (simp add: alarm_of_span_def)

lemma map_insort_key: "map f (insort_key f x xs) = insort (f x) (map f xs)"
  by (induction xs) simp_all

lemma map_sort_key: "map f (sort_key f xs) = sort (map f xs)"
  by (induction xs) (simp_all add: map_insort_key)

lemma strict_product_data:
  assumes "distinct (map time (filter (\<lambda>r. product_id r = pid) df))"
  shows "sorted_wrt (<) (map time (product_data_of df pid))"
  using assms by (simp add: strict_sorted_iff product_data_of_def map_sort_key)

lemma strict_time_less:
  "sorted_wrt (<) (map time pd) \<Longrightarrow> i < j \<Longrightarrow> j < length pd \<Longrightarrow> time (pd ! i) < time (pd ! j)"
  using sorted_wrt_nth_less [of "(<)" "map time pd" i j] by simp

lemma emitted_spans_sorted:
  "sorted_wrt (\<lambda>p q. snd p + 1 < fst q) (emitted_spans pd alpha beta i)"
  unfolding emitted_spans_def by (rule sorted_wrt_filter) (rule run_spans_sorted)

lemma emitted_spans_from:
  "(s, e) \<in> set (emitted_spans pd alpha beta i) \<Longrightarrow> i \<le> s \<and> s \<le> e \<and> e < length pd"
  using run_spans_from [of s e pd alpha i] by (simp add: emitted_spans_def)

lemma alarm_loop_any_alerts:
  "alarm_loop le al alpha beta pid pd i acc = Inr out
     \<Longrightarrow> \<exists>out'. alarm_loop le al' alpha beta pid pd i acc' = Inr out'"
proof (induction "length pd - i" arbitrary: i acc acc' out rule: less_induct)
  case less
  show ?case
  proof (cases "i < length pd")
    case False
    then show ?thesis by (simp add: alarm_loop_end)
  next
    case inb: True
    let ?e = "extend_run pd alpha i"
    have dec: "length pd - (?e + 1) < length pd - i"
      using inb extend_run_ge [of i pd alpha] by simp
    show ?thesis
    proof (cases "above alpha (pd ! i)")
      case False
      have "length pd - (i + 1) < length pd - i" using inb by simp
      from less.hyps [OF this, of acc out acc'] show ?thesis
        using less.prems inb False by (simp add: alarm_loop_below)
    next
      case True
      show ?thesis
      proof (cases "beta \<le> span_duration pd i ?e")
        case False
        from less.hyps [OF dec, of acc out acc'] show ?thesis
          using less.prems inb True False by (simp add: alarm_loop_short)
      next
        case long: True
        show ?thesis
        proof (cases "collect_sensor_anomalies le (iloc_slice pd i (?e + 1)) []")
          case (Inl x)
          then show ?thesis using less.prems alarm_loop_raise [OF inb True long Inl] by simp
        next
          case (Inr found)
          have "alarm_loop le al alpha beta pid pd (?e + 1)
                  (acc @ [alarm_of_span le al pid pd i ?e]) = Inr out"
            using less.prems alarm_loop_emit [OF inb True long Inr] by simp
          from less.hyps [OF dec this, of "acc' @ [alarm_of_span le al' pid pd i ?e]"]
          show ?thesis using alarm_loop_emit [OF inb True long Inr, of al' pid acc'] by simp
        qed
      qed
    qed
  qed
qed

lemma alarm_of_span_no_alerts:
  "alarm_of_span le [] pid pd s e = (alarm_of_span le al pid pd s e)\<lparr>alerts := []\<rparr>"
  by (simp add: alarm_of_span_def period_alerts_def)

lemma product_alarms_no_alerts:
  assumes "product_alarms le df al alpha beta pid acc = Inr out"
  shows "product_alarms le df [] alpha beta pid (map (\<lambda>a. a\<lparr>alerts := []\<rparr>) acc)
     = Inr (map (\<lambda>a. a\<lparr>alerts := []\<rparr>) out)"
proof -
  let ?pd = "product_data_of df pid"
  let ?acc' = "map (\<lambda>a. a\<lparr>alerts := []\<rparr>) acc"
  have "\<exists>out'. product_alarms le df [] alpha beta pid ?acc' = Inr out'"
  proof (cases "length ?pd = 0")
    case True
    then show ?thesis by (simp add: product_alarms_def)
  next
    case False
    then have "alarm_loop le al alpha beta pid ?pd 0 acc = Inr out"
      using assms by (simp add: product_alarms_def)
    from alarm_loop_any_alerts [OF this, of "[]" ?acc'] show ?thesis
      using False by (simp add: product_alarms_def)
  qed
  then obtain out' where o: "product_alarms le df [] alpha beta pid ?acc' = Inr out'" by blast
  have "out' = map (\<lambda>a. a\<lparr>alerts := []\<rparr>) out"
    unfolding product_alarms_Inr [OF o] product_alarms_Inr [OF assms]
    by (simp add: alarm_of_span_no_alerts [of le pid ?pd _ _ al] case_prod_unfold)
  then show ?thesis using o by simp
qed

lemma products_loop_no_alerts:
  "products_loop le df al alpha beta pids acc = Inr out \<Longrightarrow>
     products_loop le df [] alpha beta pids (map (\<lambda>a. a\<lparr>alerts := []\<rparr>) acc)
       = Inr (map (\<lambda>a. a\<lparr>alerts := []\<rparr>) out)"
proof (induction pids arbitrary: acc)
  case Nil
  then show ?case by simp
next
  case (Cons pid pids)
  then obtain mid where m: "product_alarms le df al alpha beta pid acc = Inr mid"
    and r: "products_loop le df al alpha beta pids mid = Inr out"
    by (auto split: sum.splits)
  show ?case using product_alarms_no_alerts [OF m] Cons.IH [OF r] by simp
qed

lemma product_alarms_unknown:
  "pid \<notin> product_id ` set df \<Longrightarrow> product_alarms le df al alpha beta pid alarms = Inr alarms"
proof -
  assume "pid \<notin> product_id ` set df"
  then have "filter (\<lambda>r. product_id r = pid) df = []" by (auto simp: filter_empty_conv)
  then show ?thesis by (simp add: product_alarms_def product_data_of_def)
qed

lemma alarm_loop_not_caught:
  "alarm_loop le al alpha beta pid pd i acc = Inl x \<Longrightarrow> x \<noteq> ValueError \<and> x \<noteq> SyntaxError"
proof (induction "length pd - i" arbitrary: i acc rule: less_induct)
  case less
  show ?case
  proof (cases "i < length pd")
    case False
    then show ?thesis using less.prems by (simp add: alarm_loop_end)
  next
    case inb: True
    let ?e = "extend_run pd alpha i"
    have dec: "length pd - (?e + 1) < length pd - i"
      using inb extend_run_ge [of i pd alpha] by simp
    show ?thesis
    proof (cases "above alpha (pd ! i)")
      case False
      have "length pd - (i + 1) < length pd - i" using inb by simp
      from less.hyps [OF this] show ?thesis
        using less.prems inb False by (simp add: alarm_loop_below)
    next
      case True
      show ?thesis
      proof (cases "beta \<le> span_duration pd i ?e")
        case False
        from less.hyps [OF dec] show ?thesis
          using less.prems inb True False by (simp add: alarm_loop_short)
      next
        case long: True
        show ?thesis
        proof (cases "collect_sensor_anomalies le (iloc_slice pd i (?e + 1)) []")
          case (Inl y)
          then show ?thesis
            using less.prems alarm_loop_raise [OF inb True long Inl, of al pid acc]
              collect_not_caught [OF Inl] by simp
        next
          case (Inr found)
          from less.hyps [OF dec] show ?thesis
            using less.prems alarm_loop_emit [OF inb True long Inr, of al pid acc] by simp
        qed
      qed
    qed
  qed
qed

lemma product_alarms_not_caught:
  "product_alarms le df al alpha beta pid acc = Inl x \<Longrightarrow> x \<noteq> ValueError \<and> x \<noteq> SyntaxError"
  using alarm_loop_not_caught [of le al alpha beta pid "product_data_of df pid" 0 acc x]
  by (auto simp: product_alarms_def Let_def split: if_splits)

lemma span_duration_ge_2:
  "sorted (map time pd) \<Longrightarrow> s \<le> e \<Longrightarrow> e < length pd \<Longrightarrow> 2 \<le> span_duration pd s e"
  using sorted_time_le [of pd s e] by (simp add: span_duration_def duration_of_def)

text \<open>
  In a series whose cells either parse to maps of numeric scores or fail with one of the two
  exceptions the page catches, let the cell of a point \<open>k\<close> of a maximal run \<open>s..e\<close> of
  sufficient duration fail with ValueError or SyntaxError. Then the scan of the product
  returns a list of alarms, the run is among them, and its sensor anomalies are those of the
  points before \<open>k\<close> followed by those of the points after \<open>k\<close>.
\<close>

lemma caught_failure_is_skipped:
  assumes ok: "list_all (cell_ok le) (product_data_of df pid)"
    and mr: "maximal_run (product_data_of df pid) alpha s e"
    and long: "beta \<le> span_duration (product_data_of df pid) s e"
    and k: "s \<le> k" "k \<le> e"
    and bad: "le (sensor_anomaly_score (product_data_of df pid ! k)) = Inl ValueError
              \<or> le (sensor_anomaly_score (product_data_of df pid ! k)) = Inl SyntaxError"
  shows "\<exists>out. product_alarms le df al alpha beta pid [] = Inr out
     \<and> (\<exists>a \<in> set out.
           start_time a = time (product_data_of df pid ! s)
         \<and> end_time a = time (product_data_of df pid ! e)
         \<and> sensor_anomalies a =
             concat (map (row_evidence le) (iloc_slice (product_data_of df pid) s k))
             @ concat (map (row_evidence le) (iloc_slice (product_data_of df pid) (k + 1) (e + 1))))"
proof -
  let ?pd = "product_data_of df pid"
  obtain out where out: "product_alarms le df al alpha beta pid [] = Inr out"
    using product_alarms_total [OF ok] by blast
  let ?a = "alarm_of_span le al pid ?pd s e"
  have mem: "?a \<in> set out" using alarm_in_out [OF out] mr long by blast
  have el: "e < length ?pd" using mr by (simp add: maximal_run_iff)
  have "row_evidence le (?pd ! k) = []" using bad row_evidence_failed by blast
  then have "sensor_anomalies ?a =
      concat (map (row_evidence le) (iloc_slice ?pd s k))
      @ concat (map (row_evidence le) (iloc_slice ?pd (k + 1) (e + 1)))"
    using iloc_slice_split [OF k el] by (simp add: alarm_of_span_def)
  moreover have "start_time ?a = time (?pd ! s)" "end_time ?a = time (?pd ! e)"
    by (simp_all add: alarm_of_span_def)
  ultimately show ?thesis using out mem by blast
qed

section \<open>The diagnosis\<close>

lemma sublist_sep:
  assumes "c \<notin> set p"
  shows "sublist p (xs @ c # ys) \<longleftrightarrow> sublist p xs \<or> sublist p ys"
proof
  assume "sublist p (xs @ c # ys)"
  then consider "sublist p xs" | "sublist p (c # ys)"
    | xs1 xs2 where "p = xs1 @ xs2" "suffix xs1 xs" "prefix xs2 (c # ys)"
    unfolding sublist_append by blast
  then show "sublist p xs \<or> sublist p ys"
  proof cases
    case 1
    then show ?thesis by simp
  next
    case 2
    then have "prefix p (c # ys) \<or> sublist p ys" by (simp add: sublist_Cons_right)
    moreover have "p = []" if "prefix p (c # ys)"
      using that assms by (cases p) auto
    ultimately show ?thesis by auto
  next
    case 3
    have "xs2 = []" using 3(1,3) assms by (cases xs2) auto
    then have "suffix p xs" using 3 by simp
    then obtain zs where "xs = zs @ p" by (auto simp: suffix_def)
    then have "sublist p xs" by simp
    then show ?thesis by simp
  qed
next
  assume "sublist p xs \<or> sublist p ys"
  then show "sublist p (xs @ c # ys)"
    by (metis append_Cons append_Nil sublist_append sublist_Cons_right)
qed

lemma sublist_sep_left:
  "c \<notin> set p \<Longrightarrow> sublist p (c # ys) \<longleftrightarrow> sublist p ys"
  using sublist_sep [of c p "[]" ys] by auto

lemma sublist_sep_right:
  "c \<notin> set p \<Longrightarrow> p \<noteq> [] \<Longrightarrow> sublist p (xs @ [c]) \<longleftrightarrow> sublist p xs"
  using sublist_sep [of c p xs "[]"] by auto

lemma sublist_join_comma:
  assumes "CHR '','' \<notin> set p" "CHR '' '' \<notin> set p" "p \<noteq> []"
  shows "sublist p (join_comma xs) \<longleftrightarrow> (\<exists>x \<in> set xs. sublist p x)"
proof (induction xs rule: join_comma.induct)
  case 1
  then show ?case using assms by simp
next
  case (2 x)
  then show ?case by simp
next
  case (3 x y ys)
  have "sublist p (x @ CHR '','' # CHR '' '' # join_comma (y # ys))
      \<longleftrightarrow> sublist p x \<or> sublist p (join_comma (y # ys))"
    using assms by (simp add: sublist_sep sublist_sep_left)
  then show ?case using 3 by simp
qed

lemma sublist_str_of_list:
  assumes "CHR '','' \<notin> set p" "CHR '' '' \<notin> set p" "CHR ''['' \<notin> set p" "CHR '']'' \<notin> set p"
    "CHR ''('' \<notin> set p" "CHR '')'' \<notin> set p" "p \<noteq> []"
  shows "sublist p (str_of_list repr xs)
     \<longleftrightarrow> (\<exists>(k, v) \<in> set xs. sublist p (repr k) \<or> sublist p (repr v))"
proof -
  have item: "sublist p (''('' @ repr k @ '', '' @ repr v @ '')'')
      \<longleftrightarrow> sublist p (repr k) \<or> sublist p (repr v)" for k v
  proof -
    have "sublist p (''('' @ repr k @ '', '' @ repr v @ '')'')
        \<longleftrightarrow> sublist p (repr k @ CHR '','' # CHR '' '' # (repr v @ '')''))"
      using assms by (simp add: sublist_sep_left)
    also have "\<dots> \<longleftrightarrow> sublist p (repr k) \<or> sublist p (repr v @ '')'')"
      using assms by (simp add: sublist_sep sublist_sep_left)
    also have "\<dots> \<longleftrightarrow> sublist p (repr k) \<or> sublist p (repr v)"
      using assms sublist_sep_right [of "CHR '')''" p "repr v"] by simp
    finally show ?thesis .
  qed
  let ?items = "map (\<lambda>(k, v). ''('' @ repr k @ '', '' @ repr v @ '')'') xs"
  have "sublist p (str_of_list repr xs) \<longleftrightarrow> sublist p (join_comma ?items)"
    using assms sublist_sep_right [of "CHR '']''" p "join_comma ?items"]
    by (simp add: str_of_list_def sublist_sep_left)
  also have "\<dots> \<longleftrightarrow> (\<exists>x \<in> set ?items. sublist p x)"
    using assms by (simp add: sublist_join_comma)
  also have "\<dots> \<longleftrightarrow> (\<exists>(k, v) \<in> set xs. sublist p (repr k) \<or> sublist p (repr v))"
    using item by (auto simp: case_prod_unfold)
  finally show ?thesis .
qed

lemma temperature_in_str:
  "sublist ''temperature-sensor'' (str_of_list repr xs)
     \<longleftrightarrow> (\<exists>(k, v) \<in> set xs. sublist ''temperature-sensor'' (repr k)
                               \<or> sublist ''temperature-sensor'' (repr v))"
  by (rule sublist_str_of_list) simp_all

lemma append_high_None:
  "append_high kvs acc = (None, out)
     \<Longrightarrow> out = acc @ filter (\<lambda>(k, v). 1 \<le> the_num v) kvs"
proof (induction kvs arbitrary: acc)
  case Nil
  then show ?case by simp
next
  case (Cons kv kvs)
  obtain k v where kv: "kv = (k, v)" by (cases kv)
  show ?case
  proof (cases v)
    case (PyNum x)
    show ?thesis
    proof (cases "1 \<le> x")
      case True
      then have "append_high kvs (acc @ [(k, v)]) = (None, out)"
        using Cons.prems kv PyNum by simp
      from Cons.IH [OF this] show ?thesis using kv PyNum True by simp
    next
      case False
      then have "append_high kvs acc = (None, out)"
        using Cons.prems kv PyNum by simp
      from Cons.IH [OF this] show ?thesis using kv PyNum False by simp
    qed
  qed (use Cons.prems kv in simp_all)
qed

lemma append_high_Some: "append_high kvs acc = (Some e, out) \<Longrightarrow> e = TypeError"
proof (induction kvs arbitrary: acc)
  case Nil
  then show ?case by simp
next
  case (Cons kv kvs)
  obtain k v where kv: "kv = (k, v)" by (cases kv)
  show ?case
  proof (cases v)
    case (PyNum x)
    then show ?thesis using Cons.prems Cons.IH kv by (auto split: if_splits)
  qed (use Cons.prems kv in simp_all)
qed

lemma collect_high_Inr:
  "collect_high_sensors le rows acc = Inr out
     \<Longrightarrow> out = acc @ concat (map (row_high le) rows)"
proof (induction rows arbitrary: acc)
  case Nil
  then show ?case by simp
next
  case (Cons row rows)
  show ?case
  proof (cases "le (sensor_anomaly_score row)")
    case (Inl e)
    then have "collect_high_sensors le rows acc = Inr out"
      using Cons.prems by (simp split: if_splits)
    from Cons.IH [OF this] show ?thesis using Inl by (simp add: row_high_def)
  next
    case (Inr d)
    show ?thesis
    proof (cases d)
      case (PyDict kvs)
      obtain r acc' where ap: "append_high kvs acc = (r, acc')"
        by (cases "append_high kvs acc")
      show ?thesis
      proof (cases r)
        case None
        then have "collect_high_sensors le rows acc' = Inr out"
          using Cons.prems Inr PyDict ap by simp
        from Cons.IH [OF this] show ?thesis
          using append_high_None ap None Inr PyDict by (simp add: row_high_def)
      next
        case (Some e)
        then have "e = TypeError" using append_high_Some ap by blast
        then show ?thesis using Cons.prems Inr PyDict ap Some by simp
      qed
    qed (use Cons.prems Inr in simp_all)
  qed
qed

lemma row_high_mem:
  "(name, v) \<in> set (row_high le r) \<longleftrightarrow>
     (\<exists>kvs. le (sensor_anomaly_score r) = Inr (PyDict kvs)
        \<and> (name, v) \<in> set kvs \<and> 1 \<le> the_num v)"
proof (cases "le (sensor_anomaly_score r)")
  case (Inl e)
  then show ?thesis by (simp add: row_high_def)
next
  case (Inr d)
  then show ?thesis by (cases d) (auto simp: row_high_def)
qed

lemma any_treatment_Inr:
  "any_treatment sas = Inr b \<Longrightarrow>
     b \<longleftrightarrow> (\<exists>a \<in> set sas. \<exists>t. treatment a = Some t
                        \<and> sublist temperature_sensor_replacement t)"
  by (induction sas) (auto split: option.splits if_splits)

lemma any_treatment_Inl:
  "any_treatment sas = Inl e \<Longrightarrow> e = TypeError \<and> (\<exists>a \<in> set sas. treatment a = None)"
  by (induction sas) (auto split: option.splits if_splits)

lemma any_treatment_total:
  "\<forall>a \<in> set sas. treatment a \<noteq> None \<Longrightarrow> \<exists>b. any_treatment sas = Inr b"
  by (induction sas) (auto split: option.splits)

lemma diagnosis_table:
  "diagnosis_parts_of repr (Some m) hsl ats sas =
     (if 25 / 10 \<le> m then
        (case any_treatment sas of
           Inl e \<Rightarrow> Inl e
         | Inr past_fix \<Rightarrow>
             Inr (High,
               [SeverityHigh, RecommendHeader]
               @ (if sublist ''temperature-sensor'' (str_of_list repr hsl)
                  then [High1_TemperatureSensor] else [])
               @ (if overheat \<in> set ats \<or> over_heating \<in> set ats
                  then [High2_CoolingSystem] else [])
               @ (if past_fix then [High3_PastFix] else [])
               @ [High4_PhysicalInspection]))
      else if 15 / 10 \<le> m then
        Inr (Medium,
         [SeverityMedium, RecommendHeader, Medium1_Monitoring]
         @ (if hsl \<noteq> [] then [Medium2_SensorCheck] else [])
         @ [Medium3_PreventiveMaintenance])
      else Inr (Low, [SeverityLow, RecommendHeader, Low1_RegularInspection, Low2_Monitoring]))"
  by (cases sas) (auto simp: diagnosis_parts_of_def max_ge_def Let_def split: sum.splits)

lemma diagnosis_returned:
  assumes "diagnosis_parts_of repr (Some m) hsl ats sas = Inr (sev, parts)"
  shows "(sev, parts) =
     (if 25 / 10 \<le> m then
        (High,
         [SeverityHigh, RecommendHeader]
         @ (if sublist ''temperature-sensor'' (str_of_list repr hsl)
            then [High1_TemperatureSensor] else [])
         @ (if overheat \<in> set ats \<or> over_heating \<in> set ats then [High2_CoolingSystem] else [])
         @ (if \<exists>a \<in> set sas. \<exists>t. treatment a = Some t
                 \<and> sublist temperature_sensor_replacement t
            then [High3_PastFix] else [])
         @ [High4_PhysicalInspection])
      else if 15 / 10 \<le> m then
        (Medium,
         [SeverityMedium, RecommendHeader, Medium1_Monitoring]
         @ (if hsl \<noteq> [] then [Medium2_SensorCheck] else [])
         @ [Medium3_PreventiveMaintenance])
      else (Low, [SeverityLow, RecommendHeader, Low1_RegularInspection, Low2_Monitoring]))"
proof (cases "25 / 10 \<le> m")
  case True
  then obtain b where b: "any_treatment sas = Inr b"
    using assms by (cases "any_treatment sas") (simp_all add: diagnosis_table)
  show ?thesis
    using assms True b any_treatment_Inr [OF b] by (simp add: diagnosis_table)
next
  case False
  then show ?thesis using assms by (simp add: diagnosis_table split: if_splits)
qed

text \<open>
  With a maximum score of at least 2.5, a diagnosis that is returned is High and its lines
  end with the physical inspection, after the conditional recommendations that apply; it is
  returned whenever no treatment among the actions is NaN.
\<close>

lemma physical_inspection_when_returned:
  assumes "25 / 10 \<le> m"
    and "diagnosis_parts_of repr (Some m) hsl ats sas = Inr (sev, parts)"
  shows "sev = High
     \<and> (\<exists>mid. parts = [SeverityHigh, RecommendHeader] @ mid @ [High4_PhysicalInspection]
           \<and> subseq mid [High1_TemperatureSensor, High2_CoolingSystem, High3_PastFix])
     \<and> last parts = High4_PhysicalInspection"
  using diagnosis_returned [OF assms(2)] assms(1) by auto

lemma diagnosis_total:
  assumes "\<forall>a \<in> set sas. treatment a \<noteq> None"
  shows "\<exists>d. diagnosis_parts_of repr (Some m) hsl ats sas = Inr d"
  using any_treatment_total [OF assms] by (auto simp: diagnosis_table)

lemma set_unique [simp]: "set (unique xs) = set xs"
  by (simp add: unique_def)

lemma sorted_action_history:
  "sorted (rev (map action_date (filtered_action_history_of actions pid)))"
  by (simp add: filtered_action_history_of_def Let_def rev_map [symmetric])

lemma detail_page_clicked:
  assumes "detail_page le repr df al actions pid t0 t1 True = Inr (Shown (Some (sev, parts)))"
  shows "\<exists>m hsl.
      column_max (map product_anomaly_score (filtered_anomaly_of df pid t0 t1)) = Some m
    \<and> collect_high_sensors le (filtered_anomaly_of df pid t0 t1) [] = Inr hsl
    \<and> diagnosis_parts_of repr (Some m) hsl
          (if length (filtered_alert_of al pid t0 t1) > 0
           then unique (map alert_identifier (filtered_alert_of al pid t0 t1)) else [])
          (if length (filtered_action_history_of actions pid) > 0
           then take 3 (filtered_action_history_of actions pid) else [])
        = Inr (sev, parts)"
proof -
  let ?fa = "filtered_anomaly_of df pid t0 t1"
  have ne: "?fa \<noteq> []" using assms by (auto simp: detail_page_def Let_def split: if_splits)
  then obtain m where m: "column_max (map product_anomaly_score ?fa) = Some m"
    by (cases ?fa) simp_all
  obtain hsl where h: "collect_high_sensors le ?fa [] = Inr hsl"
    using assms ne by (cases "collect_high_sensors le ?fa []")
      (auto simp: detail_page_def Let_def split: if_splits)
  show ?thesis using assms ne m h
    by (auto simp: detail_page_def ai_diagnosis_def Let_def split: if_splits sum.splits)
qed

lemma column_min_None [simp]: "column_min xs = None \<longleftrightarrow> xs = []"
  by (cases xs) simp_all

lemma detail_page_empty_table:
  "detail_page le repr [] al actions pid t0 t1 clicked = Inl ValueError"
  by (simp add: detail_page_def)

lemma detail_page_no_rows:
  assumes "df \<noteq> []" and "filtered_anomaly_of df pid t0 t1 = []"
  shows "detail_page le repr df al actions pid t0 t1 clicked = Inr Stopped"
  using assms by (simp add: detail_page_def)

lemma slider_values_range:
  assumes "0 < step" and "min_value \<le> max_value"
    and "v \<in> set (slider_values min_value max_value step)"
  shows "min_value \<le> v \<and> v \<le> max_value"
proof -
  let ?q = "(max_value - min_value) / step"
  obtain k where k: "k \<le> nat \<lfloor>?q\<rfloor>" and v: "v = min_value + of_nat k * step"
    using assms(3) by (auto simp: slider_values_def less_Suc_eq_le simp del: upt_Suc)
  have q: "0 \<le> ?q" using assms by simp
  have "of_nat k \<le> (of_int \<lfloor>?q\<rfloor> :: rat)"
  proof -
    have "int k \<le> \<lfloor>?q\<rfloor>" using k q by linarith
    then show ?thesis by (metis of_int_le_iff of_int_of_nat_eq)
  qed
  also have "\<dots> \<le> ?q" by (rule of_int_floor_le)
  finally have "of_nat k * step \<le> max_value - min_value"
    using assms(1) by (simp add: pos_le_divide_eq)
  moreover have "0 \<le> of_nat k * step" using assms(1) by simp
  ultimately show ?thesis using v by simp
qed

lemma alpha_values_range: "alpha \<in> set alpha_values \<Longrightarrow> 0 \<le> alpha \<and> alpha \<le> 35 / 10"
  using slider_values_range [of "1 / 10" 0 "35 / 10" alpha] by (simp add: alpha_values_def)

lemma beta_values_range: "beta \<in> set beta_values \<Longrightarrow> 2 \<le> beta \<and> beta \<le> 30"
  using slider_values_range [of 2 2 30 beta] by (simp add: beta_values_def)

section \<open>The pages on the concrete tables\<close>

lemma scenario_product_data: "product_data_of scenario_df ''D1'' = scenario_df"
  by (simp add: product_data_of_def scenario_df_def row_of_def)

lemma scenario_run:
  "product_alarms scenario_eval scenario_df scenario_alerts 1 4 ''D1'' [] = Inr [scenario_alarm]"
  by (simp add: product_alarms_def scenario_product_data)
     (simp add: scenario_df_def row_of_def alarm_loop.simps extend_run.simps duration_of_def
        iloc_slice_def try_row_def scenario_eval_def period_alerts_def scenario_alerts_def
        alert_of_def scenario_alarm_def)

lemma two_runs_product_data: "product_data_of two_runs_df ''D1'' = two_runs_df"
  by (simp add: product_data_of_def two_runs_df_def row_of_def)

lemma two_runs_run:
  "product_alarms scenario_eval two_runs_df [] 1 4 ''D1'' []
     = Inr [plain_alarm 0 120, plain_alarm 360 480]"
  by (simp add: product_alarms_def two_runs_product_data)
     (simp add: two_runs_df_def row_of_def alarm_loop.simps extend_run.simps duration_of_def
        iloc_slice_def try_row_def scenario_eval_def period_alerts_def plain_alarm_def)

lemma two_runs_head_data: "product_data_of (take 2 two_runs_df) ''D1'' = take 2 two_runs_df"
  by (simp add: product_data_of_def two_runs_df_def row_of_def)

lemma two_runs_head_run:
  "product_alarms scenario_eval (take 2 two_runs_df) [] 1 4 ''D1'' [] = Inr [plain_alarm 0 120]"
  by (simp add: product_alarms_def two_runs_head_data)
     (simp add: two_runs_df_def row_of_def alarm_loop.simps extend_run.simps duration_of_def
        iloc_slice_def try_row_def scenario_eval_def period_alerts_def plain_alarm_def)

lemma one_minute_product_data: "product_data_of one_minute_df ''D1'' = one_minute_df"
  by (simp add: product_data_of_def one_minute_df_def row_of_def)

lemma one_minute_run:
  "product_alarms scenario_eval one_minute_df [] 1 2 ''D1'' [] = Inr [one_minute_alarm]"
  by (simp add: product_alarms_def one_minute_product_data)
     (simp add: one_minute_df_def row_of_def alarm_loop.simps extend_run.simps duration_of_def
        iloc_slice_def try_row_def scenario_eval_def period_alerts_def one_minute_alarm_def)

lemma scenario_interval: "nominal_sample_interval scenario_df = Some 2"
  by (simp add: nominal_sample_interval_def scenario_df_def row_of_def)

lemma scenario_run_8:
  "product_alarms scenario_eval scenario_df scenario_alerts 1 8 ''D1'' [] = Inr []"
  by (simp add: product_alarms_def scenario_product_data)
     (simp add: scenario_df_def row_of_def alarm_loop.simps extend_run.simps duration_of_def)

lemma scenario_cells_ok: "list_all (cell_ok scenario_eval) scenario_df"
  by (simp add: scenario_df_def row_of_def cell_ok_def scenario_eval_def)

lemma scenario_products: "sort (unique (map product_id scenario_df)) = [''D1'']"
  by (simp add: unique_def scenario_df_def row_of_def)

lemma scenario_page:
  "alarm_page scenario_eval (Some scenario_df) (Some scenario_alerts) 1 4
     = Inr (Shown [scenario_alarm])"
  by (simp add: alarm_page_def load_anomaly_data_def load_alert_data_def detect_alarms_def
      scenario_products scenario_run)

lemma diagnosis_high_sensors:
  "collect_high_sensors diagnosis_eval (filtered_anomaly_of diagnosis_df ''D1'' 0 600) []
     = Inr [(PyStr ''temperature-sensor'', PyNum 3)]"
  by (simp add: filtered_anomaly_of_def diagnosis_df_def row_of_def diagnosis_eval_def)

lemma diagnosis_text:
  "str_of_list diagnosis_repr [(PyStr ''temperature-sensor'', PyNum 3)]
     = ''[('' @ [CHR 0x27] @ ''temperature-sensor'' @ [CHR 0x27] @ '', 3.0)]''"
  by (simp add: str_of_list_def diagnosis_repr_def)

lemma diagnosis_page:
  "detail_page diagnosis_eval diagnosis_repr diagnosis_df diagnosis_alerts diagnosis_actions
     ''D1'' 0 600 True
   = Inr (Shown (Some (High,
       [SeverityHigh, RecommendHeader, High1_TemperatureSensor, High2_CoolingSystem,
        High3_PastFix, High4_PhysicalInspection])))"
proof -
  have fa: "filtered_anomaly_of diagnosis_df ''D1'' 0 600 = diagnosis_df"
    by (simp add: filtered_anomaly_of_def diagnosis_df_def row_of_def)
  have fal: "filtered_alert_of diagnosis_alerts ''D1'' 0 600 = diagnosis_alerts"
    by (simp add: filtered_alert_of_def diagnosis_alerts_def alert_of_def)
  have fh: "filtered_action_history_of diagnosis_actions ''D1'' = rev diagnosis_actions"
    by (simp add: filtered_action_history_of_def diagnosis_actions_def)
  have mx: "column_max (map product_anomaly_score diagnosis_df) = Some 3"
    by (simp add: diagnosis_df_def row_of_def)
  have t: "sublist ''temperature-sensor''
      (str_of_list diagnosis_repr [(PyStr ''temperature-sensor'', PyNum 3)])"
    unfolding diagnosis_text by (simp add: sublist_Cons_right)
  have ats: "over_heating \<in> set (unique (map alert_identifier diagnosis_alerts))"
    by (simp add: diagnosis_alerts_def alert_of_def)
  have sas: "any_treatment (take 3 (rev diagnosis_actions)) = Inr True"
    by (simp add: diagnosis_actions_def)
  have len: "diagnosis_df \<noteq> []" "0 < length diagnosis_alerts"
    "0 < length (rev diagnosis_actions)"
    by (simp_all add: diagnosis_df_def diagnosis_alerts_def diagnosis_actions_def)
  show ?thesis
    using diagnosis_high_sensors [unfolded fa] mx t ats sas len
    by (simp add: detail_page_def ai_diagnosis_def fa fal fh diagnosis_table)
qed

lemma nan_page:
  "detail_page diagnosis_eval diagnosis_repr diagnosis_df diagnosis_alerts nan_actions
     ''D1'' 0 600 True
   = Inl TypeError"
proof -
  have fa: "filtered_anomaly_of diagnosis_df ''D1'' 0 600 = diagnosis_df"
    by (simp add: filtered_anomaly_of_def diagnosis_df_def row_of_def)
  have fh: "filtered_action_history_of nan_actions ''D1'' = rev nan_actions"
    by (simp add: filtered_action_history_of_def nan_actions_def diagnosis_actions_def)
  have mx: "column_max (map product_anomaly_score diagnosis_df) = Some 3"
    by (simp add: diagnosis_df_def row_of_def)
  have sas: "any_treatment (take 3 (rev nan_actions)) = Inl TypeError"
    by (simp add: nan_actions_def diagnosis_actions_def)
  have len: "diagnosis_df \<noteq> []" "0 < length (rev nan_actions)"
    by (simp_all add: diagnosis_df_def nan_actions_def)
  show ?thesis
    using diagnosis_high_sensors [unfolded fa] mx sas len
    by (simp add: detail_page_def ai_diagnosis_def fa fh diagnosis_table)
qed

lemma unhashable_run:
  "product_alarms unhashable_eval unhashable_df scenario_alerts 1 4 ''D1'' [] = Inl TypeError"
proof -
  have pd: "product_data_of unhashable_df ''D1'' = unhashable_df"
    by (simp add: product_data_of_def unhashable_df_def scenario_df_def row_of_def)
  show ?thesis
    by (simp add: product_alarms_def pd)
       (simp add: unhashable_df_def scenario_df_def row_of_def alarm_loop.simps
          extend_run.simps duration_of_def iloc_slice_def try_row_def unhashable_eval_def
          scenario_eval_def)
qed

lemma unhashable_page:
  "alarm_page unhashable_eval (Some unhashable_df) (Some scenario_alerts) 1 4 = Inl TypeError"
proof -
  have "sort (unique (map product_id unhashable_df)) = [''D1'']"
    by (simp add: unhashable_df_def scenario_df_def row_of_def unique_def)
  then show ?thesis
    using unhashable_run
    by (simp add: alarm_page_def load_anomaly_data_def load_alert_data_def detect_alarms_def)
qed

section \<open>Claims\<close>

text \<open>
  C1, as the code has it. The duration of every returned alarm is the time between its
  first and last point, in minutes, plus the constant 2: the two-minute sampling interval of
  the reference data, written into line 105 and not derived from the timestamps. It is the
  duration of the specification when the minimum positive gap of the series is two minutes.
\<close>

theorem duration_adds_two_minutes:
  assumes run: "product_alarms le df al alpha beta pid [] = Inr out"
    and a: "a \<in> set out"
  shows "duration_minutes a = (end_time a - start_time a) / 60 + 2
     \<and> (\<exists>s e. maximal_run (product_data_of df pid) alpha s e
           \<and> a = alarm_of_span le al pid (product_data_of df pid) s e
           \<and> (nominal_sample_interval (product_data_of df pid) = Some 2 \<longrightarrow>
                spec_duration (product_data_of df pid) s e = Some (duration_minutes a)))"
proof -
  let ?pd = "product_data_of df pid"
  obtain s e where mr: "maximal_run ?pd alpha s e"
    and eq: "a = alarm_of_span le al pid ?pd s e"
    using alarm_in_out [OF run] a by blast
  have d: "duration_minutes a = (end_time a - start_time a) / 60 + 2"
    using eq by (simp add: alarm_of_span_def span_duration_def duration_of_def)
  have "spec_duration ?pd s e = Some (duration_minutes a)"
    if "nominal_sample_interval ?pd = Some 2"
    using that eq by (simp add: spec_duration_def span_duration_def duration_of_def)
  then show ?thesis using d mr eq by blast
qed

theorem duration_adds_two_minutes_witness:
  "product_alarms scenario_eval scenario_df scenario_alerts 1 4 ''D1'' [] = Inr [scenario_alarm]
   \<and> scenario_alarm \<in> set [scenario_alarm]
   \<and> duration_minutes scenario_alarm = (end_time scenario_alarm - start_time scenario_alarm) / 60 + 2
   \<and> duration_minutes scenario_alarm = 6
   \<and> nominal_sample_interval scenario_df = Some 2"
proof -
  have mem: "scenario_alarm \<in> set [scenario_alarm]" by simp
  have six: "duration_minutes scenario_alarm = 6" by (simp add: scenario_alarm_def)
  from duration_adds_two_minutes [OF scenario_run mem]
  show ?thesis using scenario_run mem six scenario_interval by blast
qed

text \<open>
  C1 as stated fails: on a device sampled every minute the run of the first two points gets
  the duration 1 + 2 = 3 minutes, where the interval derived from the timestamps (one
  minute) gives 2.
\<close>

theorem duration_counterexample:
  "product_alarms scenario_eval one_minute_df [] 1 2 ''D1'' [] = Inr [one_minute_alarm]
   \<and> product_data_of one_minute_df ''D1'' = one_minute_df
   \<and> start_time one_minute_alarm = time (one_minute_df ! 0)
   \<and> end_time one_minute_alarm = time (one_minute_df ! 1)
   \<and> duration_minutes one_minute_alarm = 3
   \<and> nominal_sample_interval one_minute_df = Some 1
   \<and> spec_duration one_minute_df 0 1 = Some 2"
  using one_minute_run one_minute_product_data
  by (simp add: one_minute_alarm_def one_minute_df_def row_of_def spec_duration_def
      nominal_sample_interval_def)

text \<open>
  C2. When the button of the detail page has computed a diagnosis, with \<open>m\<close> the maximum
  score of the rows of the window: the severity is High exactly when \<open>m\<close> is at least 2.5,
  Medium exactly when it is at least 1.5 and below 2.5, Low exactly when it is below 1.5.
  The recommendation to inspect the temperature sensor is present exactly when the severity
  is High and the text of the list of high sensors (the pairs of sensor and score of the
  window with a score of at least 1.0) contains \<open>temperature-sensor\<close>, and then one of
  these pairs has it in the text of its sensor or of its score; the recommendation to inspect
  the cooling system exactly when the severity is High and an alert of the window has one
  of the two overheating identifiers; the citation of a past fix exactly when the severity is
  High and one of the first three actions of the product, newest first, has the replacement
  of the temperature sensor in its treatment. The lines come in the fixed order of the table.
  (A treatment cell that is empty has no text, and where the search of the treatments raises
  the page computes no diagnosis.)
\<close>

theorem diagnosis_decision_table:
  assumes page:
    "detail_page le repr df al actions pid t0 t1 True = Inr (Shown (Some (sev, parts)))"
  shows "\<exists>m hsl.
      column_max (map product_anomaly_score (filtered_anomaly_of df pid t0 t1)) = Some m
    \<and> m = Max (product_anomaly_score ` set (filtered_anomaly_of df pid t0 t1))
    \<and> collect_high_sensors le (filtered_anomaly_of df pid t0 t1) [] = Inr hsl
    \<and> (\<forall>name v. (name, v) \<in> set hsl \<longleftrightarrow>
          (\<exists>r \<in> set (filtered_anomaly_of df pid t0 t1). \<exists>kvs.
              le (sensor_anomaly_score r) = Inr (PyDict kvs)
              \<and> (name, v) \<in> set kvs \<and> 1 \<le> the_num v))
    \<and> (sev = High \<longleftrightarrow> 25 / 10 \<le> m)
    \<and> (sev = Medium \<longleftrightarrow> 15 / 10 \<le> m \<and> m < 25 / 10)
    \<and> (sev = Low \<longleftrightarrow> m < 15 / 10)
    \<and> (High1_TemperatureSensor \<in> set parts \<longleftrightarrow>
          sev = High \<and> sublist ''temperature-sensor'' (str_of_list repr hsl))
    \<and> (High1_TemperatureSensor \<in> set parts \<longrightarrow>
          (\<exists>(name, v) \<in> set hsl. sublist ''temperature-sensor'' (repr name)
                                   \<or> sublist ''temperature-sensor'' (repr v)))
    \<and> (High2_CoolingSystem \<in> set parts \<longleftrightarrow>
          sev = High \<and> (\<exists>ev \<in> set (filtered_alert_of al pid t0 t1).
                           alert_identifier ev = overheat \<or> alert_identifier ev = over_heating))
    \<and> (High3_PastFix \<in> set parts \<longleftrightarrow>
          sev = High \<and> (\<exists>a \<in> set (take 3 (filtered_action_history_of actions pid)).
                           \<exists>t. treatment a = Some t
                             \<and> sublist temperature_sensor_replacement t))
    \<and> sorted (rev (map action_date (filtered_action_history_of actions pid)))
    \<and> set (filtered_action_history_of actions pid)
        = {a \<in> set actions. action_product_id a = pid}
    \<and> subseq parts
        (case sev of
           High \<Rightarrow> [SeverityHigh, RecommendHeader, High1_TemperatureSensor,
                     High2_CoolingSystem, High3_PastFix, High4_PhysicalInspection]
         | Medium \<Rightarrow> [SeverityMedium, RecommendHeader, Medium1_Monitoring,
                       Medium2_SensorCheck, Medium3_PreventiveMaintenance]
         | Low \<Rightarrow> [SeverityLow, RecommendHeader, Low1_RegularInspection, Low2_Monitoring])"
proof -
  let ?fa = "filtered_anomaly_of df pid t0 t1"
  let ?fal = "filtered_alert_of al pid t0 t1"
  let ?fh = "filtered_action_history_of actions pid"
  let ?ats = "if length ?fal > 0 then unique (map alert_identifier ?fal) else []"
  let ?sas = "if length ?fh > 0 then take 3 ?fh else []"
  obtain m hsl where m: "column_max (map product_anomaly_score ?fa) = Some m"
    and h: "collect_high_sensors le ?fa [] = Inr hsl"
    and d: "diagnosis_parts_of repr (Some m) hsl ?ats ?sas = Inr (sev, parts)"
    using detail_page_clicked [OF page] by blast
  have mx: "m = Max (product_anomaly_score ` set ?fa)"
  proof -
    have "map product_anomaly_score ?fa \<noteq> []" using m by auto
    from column_max_Max [OF this] show ?thesis using m by simp
  qed
  have hs: "\<forall>name v. (name, v) \<in> set hsl \<longleftrightarrow>
          (\<exists>r \<in> set ?fa. \<exists>kvs. le (sensor_anomaly_score r) = Inr (PyDict kvs)
              \<and> (name, v) \<in> set kvs \<and> 1 \<le> the_num v)"
    using collect_high_Inr [OF h] by (auto simp: row_high_mem)
  have ats: "overheat \<in> set ?ats \<or> over_heating \<in> set ?ats \<longleftrightarrow>
      (\<exists>ev \<in> set ?fal. alert_identifier ev = overheat \<or> alert_identifier ev = over_heating)"
  proof -
    have "set ?ats = alert_identifier ` set ?fal" by auto
    then show ?thesis by (metis (no_types, lifting) image_iff)
  qed
  have sas: "(\<exists>a \<in> set ?sas. \<exists>t. treatment a = Some t
                  \<and> sublist temperature_sensor_replacement t) \<longleftrightarrow>
      (\<exists>a \<in> set (take 3 ?fh). \<exists>t. treatment a = Some t
                  \<and> sublist temperature_sensor_replacement t)"
  proof -
    have "?sas = take 3 ?fh" by simp
    then show ?thesis by (simp only:)
  qed
  note tab = diagnosis_returned [OF d, unfolded ats sas]
  have sev: "(sev = High \<longleftrightarrow> 25 / 10 \<le> m) \<and> (sev = Medium \<longleftrightarrow> 15 / 10 \<le> m \<and> m < 25 / 10)
      \<and> (sev = Low \<longleftrightarrow> m < 15 / 10)"
    using tab by (auto split: if_splits)
  have h1: "High1_TemperatureSensor \<in> set parts \<longleftrightarrow>
          sev = High \<and> sublist ''temperature-sensor'' (str_of_list repr hsl)"
    using tab by (auto split: if_splits)
  have h1': "\<exists>(name, v) \<in> set hsl. sublist ''temperature-sensor'' (repr name)
                                   \<or> sublist ''temperature-sensor'' (repr v)"
    if "High1_TemperatureSensor \<in> set parts"
    using that h1 temperature_in_str [of repr hsl] by simp
  have h2: "High2_CoolingSystem \<in> set parts \<longleftrightarrow>
          sev = High \<and> (\<exists>ev \<in> set ?fal.
                           alert_identifier ev = overheat \<or> alert_identifier ev = over_heating)"
    using tab by (auto split: if_splits)
  have h3: "High3_PastFix \<in> set parts \<longleftrightarrow>
          sev = High \<and> (\<exists>a \<in> set (take 3 ?fh).
                           \<exists>t. treatment a = Some t
                             \<and> sublist temperature_sensor_replacement t)"
    using tab by (auto split: if_splits)
  have fh: "set ?fh = {a \<in> set actions. action_product_id a = pid}"
    by (auto simp: filtered_action_history_of_def Let_def filter_empty_conv)
  have ord: "subseq parts
        (case sev of
           High \<Rightarrow> [SeverityHigh, RecommendHeader, High1_TemperatureSensor,
                     High2_CoolingSystem, High3_PastFix, High4_PhysicalInspection]
         | Medium \<Rightarrow> [SeverityMedium, RecommendHeader, Medium1_Monitoring,
                       Medium2_SensorCheck, Medium3_PreventiveMaintenance]
         | Low \<Rightarrow> [SeverityLow, RecommendHeader, Low1_RegularInspection, Low2_Monitoring])"
    using tab by (auto split: if_splits)
  show ?thesis
    using m mx h hs sev h1 h1' h2 h3 sorted_action_history [of actions pid] fh ord by blast
qed

theorem diagnosis_decision_table_witness:
  "detail_page diagnosis_eval diagnosis_repr diagnosis_df diagnosis_alerts diagnosis_actions
     ''D1'' 0 600 True
   = Inr (Shown (Some (High,
       [SeverityHigh, RecommendHeader, High1_TemperatureSensor, High2_CoolingSystem,
        High3_PastFix, High4_PhysicalInspection])))
   \<and> (\<exists>m hsl.
        column_max (map product_anomaly_score (filtered_anomaly_of diagnosis_df ''D1'' 0 600))
          = Some m
      \<and> collect_high_sensors diagnosis_eval (filtered_anomaly_of diagnosis_df ''D1'' 0 600) []
          = Inr hsl
      \<and> 25 / 10 \<le> m
      \<and> sublist ''temperature-sensor'' (str_of_list diagnosis_repr hsl)
      \<and> (\<exists>(name, v) \<in> set hsl. sublist ''temperature-sensor'' (diagnosis_repr name)
            \<or> sublist ''temperature-sensor'' (diagnosis_repr v))
      \<and> (\<exists>ev \<in> set (filtered_alert_of diagnosis_alerts ''D1'' 0 600).
            alert_identifier ev = overheat \<or> alert_identifier ev = over_heating)
      \<and> (\<exists>a \<in> set (take 3 (filtered_action_history_of diagnosis_actions ''D1'')).
            \<exists>t. treatment a = Some t \<and> sublist temperature_sensor_replacement t))"
proof -
  let ?parts = "[SeverityHigh, RecommendHeader, High1_TemperatureSensor, High2_CoolingSystem,
        High3_PastFix, High4_PhysicalInspection]"
  let ?fa = "filtered_anomaly_of diagnosis_df ''D1'' 0 600"
  from diagnosis_decision_table [OF diagnosis_page]
  obtain m hsl where a: "column_max (map product_anomaly_score ?fa) = Some m"
    and b: "collect_high_sensors diagnosis_eval ?fa [] = Inr hsl"
    and c: "High = High \<longleftrightarrow> 25 / 10 \<le> m"
    and d: "High1_TemperatureSensor \<in> set ?parts \<longleftrightarrow>
          High = High \<and> sublist ''temperature-sensor'' (str_of_list diagnosis_repr hsl)"
    and e: "High1_TemperatureSensor \<in> set ?parts \<longrightarrow>
          (\<exists>(name, v) \<in> set hsl. sublist ''temperature-sensor'' (diagnosis_repr name)
                                   \<or> sublist ''temperature-sensor'' (diagnosis_repr v))"
    and f: "High2_CoolingSystem \<in> set ?parts \<longleftrightarrow>
          High = High \<and> (\<exists>ev \<in> set (filtered_alert_of diagnosis_alerts ''D1'' 0 600).
                           alert_identifier ev = overheat \<or> alert_identifier ev = over_heating)"
    and g: "High3_PastFix \<in> set ?parts \<longleftrightarrow>
          High = High \<and> (\<exists>a \<in> set (take 3 (filtered_action_history_of diagnosis_actions ''D1'')).
                           \<exists>t. treatment a = Some t
                             \<and> sublist temperature_sensor_replacement t)"
    by blast
  have mem: "High1_TemperatureSensor \<in> set ?parts" "High2_CoolingSystem \<in> set ?parts"
    "High3_PastFix \<in> set ?parts"
    by simp_all
  show ?thesis using diagnosis_page a b c d e f g mem by blast
qed

text \<open>
  C3. A point belongs to a run exactly when its aggregate score is strictly greater than
  the threshold, so that a point at the threshold belongs to none. Every returned alarm has a
  duration of at least the minimum duration; a maximal run is returned exactly when its
  duration is at least the minimum duration (an inclusive comparison), and a maximal run that
  is not returned has a smaller duration.
\<close>

theorem threshold_and_duration_gate:
  assumes run: "product_alarms le df al alpha beta pid [] = Inr out"
  shows
    "(\<forall>a \<in> set out. beta \<le> duration_minutes a
        \<and> (\<exists>s e. maximal_run (product_data_of df pid) alpha s e
              \<and> a = alarm_of_span le al pid (product_data_of df pid) s e))
     \<and> (\<forall>s e. maximal_run (product_data_of df pid) alpha s e \<longrightarrow>
          (alarm_of_span le al pid (product_data_of df pid) s e \<in> set out
             \<longleftrightarrow> beta \<le> span_duration (product_data_of df pid) s e))
     \<and> (\<forall>s e. maximal_run (product_data_of df pid) alpha s e
            \<and> alarm_of_span le al pid (product_data_of df pid) s e \<notin> set out
          \<longrightarrow> span_duration (product_data_of df pid) s e < beta)
     \<and> (\<forall>k < length (product_data_of df pid).
          (\<exists>s e. maximal_run (product_data_of df pid) alpha s e \<and> s \<le> k \<and> k \<le> e)
            \<longleftrightarrow> alpha < product_anomaly_score (product_data_of df pid ! k))"
proof -
  let ?pd = "product_data_of df pid"
  note mem = alarm_in_out [OF run]
  have 1: "\<forall>a \<in> set out. beta \<le> duration_minutes a
        \<and> (\<exists>s e. maximal_run ?pd alpha s e \<and> a = alarm_of_span le al pid ?pd s e)"
  proof
    fix a
    assume "a \<in> set out"
    then obtain s e where "maximal_run ?pd alpha s e" "beta \<le> span_duration ?pd s e"
      "a = alarm_of_span le al pid ?pd s e"
      using mem [of a] by blast
    then show "beta \<le> duration_minutes a
        \<and> (\<exists>s e. maximal_run ?pd alpha s e \<and> a = alarm_of_span le al pid ?pd s e)"
      by auto
  qed
  have 2: "alarm_of_span le al pid ?pd s e \<in> set out \<longleftrightarrow> beta \<le> span_duration ?pd s e"
    if mr: "maximal_run ?pd alpha s e" for s e
  proof
    assume "alarm_of_span le al pid ?pd s e \<in> set out"
    then have "beta \<le> duration_minutes (alarm_of_span le al pid ?pd s e)" using 1 by blast
    then show "beta \<le> span_duration ?pd s e" by simp
  next
    assume "beta \<le> span_duration ?pd s e"
    then show "alarm_of_span le al pid ?pd s e \<in> set out" using mem mr by blast
  qed
  have 3: "span_duration ?pd s e < beta"
    if "maximal_run ?pd alpha s e \<and> alarm_of_span le al pid ?pd s e \<notin> set out" for s e
    using 2 [of s e] that by auto
  have 4: "(\<exists>s e. maximal_run ?pd alpha s e \<and> s \<le> k \<and> k \<le> e)
            \<longleftrightarrow> alpha < product_anomaly_score (?pd ! k)" if "k < length ?pd" for k
    using in_run_iff_above [OF that, of alpha] by (simp add: above_def)
  show ?thesis using 1 2 3 4 by blast
qed

theorem threshold_and_duration_gate_witness:
  "product_alarms scenario_eval scenario_df scenario_alerts 1 4 ''D1'' [] = Inr [scenario_alarm]
   \<and> maximal_run scenario_df 1 2 4
   \<and> alarm_of_span scenario_eval scenario_alerts ''D1'' scenario_df 2 4 \<in> set [scenario_alarm]
   \<and> 4 \<le> span_duration scenario_df 2 4
   \<and> 4 \<le> duration_minutes scenario_alarm
   \<and> product_anomaly_score (scenario_df ! 4) = 14 / 10
   \<and> (\<exists>s e. maximal_run scenario_df 1 s e \<and> s \<le> 4 \<and> 4 \<le> e)
   \<and> product_alarms scenario_eval scenario_df scenario_alerts 1 8 ''D1'' [] = Inr []
   \<and> alarm_of_span scenario_eval scenario_alerts ''D1'' scenario_df 2 4 \<notin> set []
   \<and> span_duration scenario_df 2 4 < 8"
proof -
  note gate = threshold_and_duration_gate [OF scenario_run, unfolded scenario_product_data]
  note gate8 = threshold_and_duration_gate [OF scenario_run_8, unfolded scenario_product_data]
  have mr: "maximal_run scenario_df 1 2 4"
    by (simp add: maximal_run_def above_def scenario_df_def row_of_def)
  have dur: "4 \<le> span_duration scenario_df 2 4"
    by (simp add: span_duration_def duration_of_def scenario_df_def row_of_def)
  have sc: "product_anomaly_score (scenario_df ! 4) = 14 / 10" "(4::nat) < length scenario_df"
    by (simp_all add: scenario_df_def row_of_def)
  from gate mr dur have "alarm_of_span scenario_eval scenario_alerts ''D1'' scenario_df 2 4
      \<in> set [scenario_alarm]"
    by blast
  moreover from gate have "4 \<le> duration_minutes scenario_alarm" by simp
  moreover from gate sc have "\<exists>s e. maximal_run scenario_df 1 s e \<and> s \<le> 4 \<and> 4 \<le> e"
    by simp
  moreover from gate8 mr have "span_duration scenario_df 2 4 < 8" by simp
  ultimately show ?thesis using scenario_run scenario_run_8 mr dur sc by simp
qed

text \<open>
  C4. The alarms of a product are built from maximal runs of above-threshold points of its
  time-ordered rows, one alarm for a run; the runs are returned in ascending order with at
  least one point between two of them, and, the timestamps of the product being distinct, the
  end time of an alarm is strictly before the start time of every later one. When every point
  is above the threshold the whole series is the only run.
\<close>

theorem runs_maximal_and_ordered:
  assumes run: "product_alarms le df al alpha beta pid [] = Inr out"
    and dist: "distinct (map time (filter (\<lambda>r. product_id r = pid) df))"
  shows
    "(\<exists>spans. out = map (\<lambda>(s, e). alarm_of_span le al pid (product_data_of df pid) s e) spans
        \<and> (\<forall>(s, e) \<in> set spans. maximal_run (product_data_of df pid) alpha s e)
        \<and> sorted_wrt (\<lambda>p q. snd p + 1 < fst q) spans)
     \<and> sorted_wrt (\<lambda>a b. end_time a < start_time b) out
     \<and> (\<forall>i. i + 1 < length out \<longrightarrow> end_time (out ! i) < start_time (out ! (i + 1)))
     \<and> (product_data_of df pid \<noteq> []
          \<and> (\<forall>r \<in> set (product_data_of df pid). alpha < product_anomaly_score r) \<longrightarrow>
        maximal_run (product_data_of df pid) alpha 0 (length (product_data_of df pid) - 1)
        \<and> out =
            (if beta \<le> span_duration (product_data_of df pid) 0
                         (length (product_data_of df pid) - 1)
             then [alarm_of_span le al pid (product_data_of df pid) 0
                     (length (product_data_of df pid) - 1)]
             else []))"
proof -
  let ?pd = "product_data_of df pid"
  let ?mk = "\<lambda>(s, e). alarm_of_span le al pid ?pd s e"
  let ?spans = "emitted_spans ?pd alpha beta 0"
  have out: "out = map ?mk ?spans" using product_alarms_Inr [OF run] by simp
  have mx: "\<forall>(s, e) \<in> set ?spans. maximal_run ?pd alpha s e"
    using emitted_spans_iff [of _ _ ?pd alpha beta] by auto
  have so: "sorted_wrt (\<lambda>p q. snd p + 1 < fst q) ?spans" by (rule emitted_spans_sorted)
  have strict: "sorted_wrt (<) (map time ?pd)" using dist by (rule strict_product_data)
  have "sorted_wrt (\<lambda>p q. end_time (?mk p) < start_time (?mk q)) ?spans"
  proof (rule sorted_wrt_mono_rel [OF _ so])
    fix p q
    assume p: "p \<in> set ?spans" and q: "q \<in> set ?spans" and lt: "snd p + 1 < fst q"
    obtain s e where pe: "p = (s, e)" by (cases p)
    obtain s' e' where qe: "q = (s', e')" by (cases q)
    have "s' < length ?pd" using emitted_spans_from [of s' e' ?pd alpha beta 0] q qe by simp
    moreover have "e < s'" using lt pe qe by simp
    ultimately have "time (?pd ! e) < time (?pd ! s')" using strict_time_less [OF strict] by simp
    then show "end_time (?mk p) < start_time (?mk q)"
      using pe qe by (simp add: alarm_of_span_def)
  qed
  then have ord: "sorted_wrt (\<lambda>a b. end_time a < start_time b) out"
    using out by (simp add: sorted_wrt_map)
  have cons: "\<forall>i. i + 1 < length out \<longrightarrow> end_time (out ! i) < start_time (out ! (i + 1))"
    using sorted_wrt_nth_less [OF ord] by simp
  have whole: "maximal_run ?pd alpha 0 (length ?pd - 1)
        \<and> out = (if beta \<le> span_duration ?pd 0 (length ?pd - 1)
                 then [alarm_of_span le al pid ?pd 0 (length ?pd - 1)] else [])"
    if ne: "?pd \<noteq> []" and all: "\<forall>r \<in> set ?pd. alpha < product_anomaly_score r"
  proof -
    have all': "\<forall>r \<in> set ?pd. above alpha r" using all by (simp add: above_def)
    have rs: "run_spans ?pd alpha 0 = [(0, length ?pd - 1)]"
      using run_spans_all_above [OF ne all'] .
    then have "maximal_run ?pd alpha 0 (length ?pd - 1)"
      using run_spans_sound [OF start_ok_0, of 0 "length ?pd - 1" ?pd alpha] by simp
    moreover have "out = (if beta \<le> span_duration ?pd 0 (length ?pd - 1)
                 then [alarm_of_span le al pid ?pd 0 (length ?pd - 1)] else [])"
      using out rs by (simp add: emitted_spans_def)
    ultimately show ?thesis by simp
  qed
  have first: "\<exists>spans. out = map ?mk spans
        \<and> (\<forall>(s, e) \<in> set spans. maximal_run ?pd alpha s e)
        \<and> sorted_wrt (\<lambda>p q. snd p + 1 < fst q) spans"
    using out mx so by blast
  show ?thesis using first ord cons whole by blast
qed

theorem runs_maximal_and_ordered_witness:
  "product_alarms scenario_eval two_runs_df [] 1 4 ''D1'' []
     = Inr [plain_alarm 0 120, plain_alarm 360 480]
   \<and> distinct (map time (filter (\<lambda>r. product_id r = ''D1'') two_runs_df))
   \<and> sorted_wrt (\<lambda>a b. end_time a < start_time b) [plain_alarm 0 120, plain_alarm 360 480]
   \<and> end_time (plain_alarm 0 120) < start_time (plain_alarm 360 480)
   \<and> product_alarms scenario_eval (take 2 two_runs_df) [] 1 4 ''D1'' [] = Inr [plain_alarm 0 120]
   \<and> distinct (map time (filter (\<lambda>r. product_id r = ''D1'') (take 2 two_runs_df)))
   \<and> take 2 two_runs_df \<noteq> []
   \<and> list_all (\<lambda>r. 1 < product_anomaly_score r) (take 2 two_runs_df)
   \<and> maximal_run (take 2 two_runs_df) 1 0 1
   \<and> [plain_alarm 0 120] = [alarm_of_span scenario_eval [] ''D1'' (take 2 two_runs_df) 0 1]"
proof -
  have d1: "distinct (map time (filter (\<lambda>r. product_id r = ''D1'') two_runs_df))"
    by (simp add: two_runs_df_def row_of_def)
  have d2: "distinct (map time (filter (\<lambda>r. product_id r = ''D1'') (take 2 two_runs_df)))"
    by (simp add: two_runs_df_def row_of_def)
  have ne: "take 2 two_runs_df \<noteq> []" by (simp add: two_runs_df_def)
  have all: "list_all (\<lambda>r. 1 < product_anomaly_score r) (take 2 two_runs_df)"
    by (simp add: two_runs_df_def row_of_def)
  have len: "length (take 2 two_runs_df) - 1 = 1" by (simp add: two_runs_df_def)
  have dur: "4 \<le> span_duration (take 2 two_runs_df) 0 1"
    by (simp add: span_duration_def duration_of_def two_runs_df_def row_of_def)
  note a = runs_maximal_and_ordered [OF two_runs_run d1]
  note b = runs_maximal_and_ordered [OF two_runs_head_run d2, unfolded two_runs_head_data len]
  from a have 1: "sorted_wrt (\<lambda>a b. end_time a < start_time b)
      [plain_alarm 0 120, plain_alarm 360 480]" by blast
  from a have 2: "end_time (plain_alarm 0 120) < start_time (plain_alarm 360 480)" by simp
  from b ne all dur have 3: "maximal_run (take 2 two_runs_df) 1 0 1
      \<and> [plain_alarm 0 120] = [alarm_of_span scenario_eval [] ''D1'' (take 2 two_runs_df) 0 1]"
    by (simp add: list_all_iff)
  show ?thesis using two_runs_run two_runs_head_run d1 d2 ne all 1 2 3 by simp
qed

text \<open>
  C5, where the code departs from it. A cell can fail to parse with an exception that
  line 127 does not catch: on \<^verbatim>\<open>{[1]: 2}\<close> \<^verbatim>\<open>ast.literal_eval\<close> raises TypeError. With
  this cell at the fourth point of the scenario, inside the run of the third to the fifth
  point, the scan of the device does not skip the point: the TypeError leaves the scan and
  the page, and no alarm is returned. With a cell that fails with SyntaxError at the same
  point the run is returned with the evidence of its other two points.
\<close>

theorem uncaught_parse_failure_raises:
  "unhashable_eval (sensor_anomaly_score (unhashable_df ! 3)) = Inl TypeError
   \<and> map time unhashable_df = map time scenario_df
   \<and> map product_anomaly_score unhashable_df = map product_anomaly_score scenario_df
   \<and> product_alarms unhashable_eval unhashable_df scenario_alerts 1 4 ''D1'' [] = Inl TypeError
   \<and> alarm_page unhashable_eval (Some unhashable_df) (Some scenario_alerts) 1 4 = Inl TypeError
   \<and> scenario_eval (sensor_anomaly_score (scenario_df ! 3)) = Inl SyntaxError
   \<and> product_alarms scenario_eval scenario_df scenario_alerts 1 4 ''D1'' [] = Inr [scenario_alarm]"
proof -
  have "unhashable_eval (sensor_anomaly_score (unhashable_df ! 3)) = Inl TypeError"
    "map time unhashable_df = map time scenario_df"
    "map product_anomaly_score unhashable_df = map product_anomaly_score scenario_df"
    "scenario_eval (sensor_anomaly_score (scenario_df ! 3)) = Inl SyntaxError"
    by (simp_all add: unhashable_df_def unhashable_eval_def scenario_df_def scenario_eval_def
        row_of_def)
  then show ?thesis using unhashable_run unhashable_page scenario_run by simp
qed

text \<open>
  C6. The evidence of every returned alarm, whose span is \<open>s..e\<close>: (a) its sensor anomalies
  are the concatenation, point by point in time order, of one entry (time of the point,
  sensor, score) for every sensor of the point's map whose score is at least 1.0, and of
  nothing else, so that the entries are in ascending order of time; (b) its alerts are the
  rows of the alert table of the same product whose time lies in the closed interval from
  the start time to the end time, an alert at the start time or at the end time included.
\<close>

theorem correlated_evidence:
  assumes run: "product_alarms le df al alpha beta pid [] = Inr out"
    and a: "a \<in> set out"
  shows "\<exists>s e. maximal_run (product_data_of df pid) alpha s e
     \<and> start_time a = time (product_data_of df pid ! s)
     \<and> end_time a = time (product_data_of df pid ! e)
     \<and> sensor_anomalies a =
         concat (map (row_evidence le) (iloc_slice (product_data_of df pid) s (e + 1)))
     \<and> (\<forall>x. x \<in> set (sensor_anomalies a) \<longleftrightarrow>
          (\<exists>k kvs name v. s \<le> k \<and> k \<le> e
             \<and> le (sensor_anomaly_score (product_data_of df pid ! k)) = Inr (PyDict kvs)
             \<and> (name, PyNum v) \<in> set kvs \<and> 1 \<le> v
             \<and> x = \<lparr>sa_time = time (product_data_of df pid ! k), sensor = name, score = v\<rparr>))
     \<and> sorted (map sa_time (sensor_anomalies a))
     \<and> alerts a =
         filter (\<lambda>ev. alert_product_id ev = pid
                   \<and> start_time a \<le> alert_time ev \<and> alert_time ev \<le> end_time a) al
     \<and> (\<forall>ev \<in> set al. alert_product_id ev = pid
            \<and> (alert_time ev = start_time a \<or> alert_time ev = end_time a)
          \<longrightarrow> ev \<in> set (alerts a))"
proof -
  let ?pd = "product_data_of df pid"
  obtain s e where mr: "maximal_run ?pd alpha s e"
    and eq: "a = alarm_of_span le al pid ?pd s e"
    using alarm_in_out [OF run] a by blast
  from mr have se: "s \<le> e" and el: "e < length ?pd" by (simp_all add: maximal_run_iff)
  have t: "start_time a \<le> end_time a"
    using sorted_time_le [OF sorted_product_data se el] eq by (simp add: alarm_of_span_def)
  have sa: "sensor_anomalies a = concat (map (row_evidence le) (iloc_slice ?pd s (e + 1)))"
    using eq by (simp add: alarm_of_span_def)
  have so: "sorted (map sa_time (sensor_anomalies a))"
    unfolding sa by (rule sorted_evidence) (rule sorted_iloc_slice, rule sorted_product_data)
  have rows: "set (iloc_slice ?pd s (e + 1)) = {?pd ! k | k. s \<le> k \<and> k \<le> e}"
    using iloc_slice_nth [OF el se] by (auto simp del: upt_Suc simp: less_Suc_eq_le)
  have me: "x \<in> set (sensor_anomalies a) \<longleftrightarrow>
          (\<exists>k kvs name v. s \<le> k \<and> k \<le> e
             \<and> le (sensor_anomaly_score (?pd ! k)) = Inr (PyDict kvs)
             \<and> (name, PyNum v) \<in> set kvs \<and> 1 \<le> v
             \<and> x = \<lparr>sa_time = time (?pd ! k), sensor = name, score = v\<rparr>)" for x
  proof
    assume "x \<in> set (sensor_anomalies a)"
    then obtain r where r: "r \<in> set (iloc_slice ?pd s (e + 1))" and x: "x \<in> set (row_evidence le r)"
      unfolding sa by auto
    from r obtain k where k: "s \<le> k" "k \<le> e" "r = ?pd ! k" using rows by auto
    from x obtain kvs name v where "le (sensor_anomaly_score r) = Inr (PyDict kvs)"
      "(name, v) \<in> set kvs" "1 \<le> the_num v"
      "x = \<lparr>sa_time = time r, sensor = name, score = the_num v\<rparr>"
      using row_evidence_mem by blast
    moreover from this obtain w where "v = PyNum w" by (cases v) simp_all
    ultimately show "\<exists>k kvs name v. s \<le> k \<and> k \<le> e
             \<and> le (sensor_anomaly_score (?pd ! k)) = Inr (PyDict kvs)
             \<and> (name, PyNum v) \<in> set kvs \<and> 1 \<le> v
             \<and> x = \<lparr>sa_time = time (?pd ! k), sensor = name, score = v\<rparr>"
      using k by auto
  next
    assume "\<exists>k kvs name v. s \<le> k \<and> k \<le> e
             \<and> le (sensor_anomaly_score (?pd ! k)) = Inr (PyDict kvs)
             \<and> (name, PyNum v) \<in> set kvs \<and> 1 \<le> v
             \<and> x = \<lparr>sa_time = time (?pd ! k), sensor = name, score = v\<rparr>"
    then obtain k kvs name v where k: "s \<le> k" "k \<le> e"
      and c: "le (sensor_anomaly_score (?pd ! k)) = Inr (PyDict kvs)"
      "(name, PyNum v) \<in> set kvs" "1 \<le> v"
      "x = \<lparr>sa_time = time (?pd ! k), sensor = name, score = v\<rparr>"
      by blast
    have "?pd ! k \<in> set (iloc_slice ?pd s (e + 1))" using rows k by auto
    moreover have "x \<in> set (row_evidence le (?pd ! k))"
      unfolding row_evidence_mem using c by force
    ultimately show "x \<in> set (sensor_anomalies a)" unfolding sa by auto
  qed
  have al: "alerts a = filter (\<lambda>ev. alert_product_id ev = pid
                   \<and> start_time a \<le> alert_time ev \<and> alert_time ev \<le> end_time a) al"
    using eq by (simp add: alarm_of_span_def period_alerts_def)
  have bd: "\<forall>ev \<in> set al. alert_product_id ev = pid
            \<and> (alert_time ev = start_time a \<or> alert_time ev = end_time a)
          \<longrightarrow> ev \<in> set (alerts a)"
    unfolding al using t by auto
  have "start_time a = time (?pd ! s)" "end_time a = time (?pd ! e)"
    using eq by (simp_all add: alarm_of_span_def)
  then show ?thesis using mr sa me so al bd by blast
qed

theorem correlated_evidence_witness:
  "product_alarms scenario_eval scenario_df scenario_alerts 1 4 ''D1'' [] = Inr [scenario_alarm]
   \<and> scenario_alarm \<in> set [scenario_alarm]
   \<and> sensor_anomalies scenario_alarm =
        [\<lparr>sa_time = 240, sensor = PyNum 1, score = 15 / 10\<rparr>,
         \<lparr>sa_time = 480, sensor = PyNum 1, score = 1\<rparr>,
         \<lparr>sa_time = 480, sensor = PyNum 2, score = 14 / 10\<rparr>]
   \<and> sorted (map sa_time (sensor_anomalies scenario_alarm))
   \<and> alerts scenario_alarm =
        filter (\<lambda>ev. alert_product_id ev = ''D1''
                  \<and> start_time scenario_alarm \<le> alert_time ev
                  \<and> alert_time ev \<le> end_time scenario_alarm) scenario_alerts
   \<and> alerts scenario_alarm = [alert_of 480 ''D1'' ''stall'', alert_of 240 ''D1'' ''overheat'']
   \<and> start_time scenario_alarm = 240 \<and> end_time scenario_alarm = 480"
proof -
  have mem: "scenario_alarm \<in> set [scenario_alarm]" by simp
  from correlated_evidence [OF scenario_run mem]
  have "sorted (map sa_time (sensor_anomalies scenario_alarm))
      \<and> alerts scenario_alarm =
        filter (\<lambda>ev. alert_product_id ev = ''D1''
                  \<and> start_time scenario_alarm \<le> alert_time ev
                  \<and> alert_time ev \<le> end_time scenario_alarm) scenario_alerts"
    by blast
  then show ?thesis using scenario_run mem by (simp add: scenario_alarm_def)
qed

text \<open>
  C7, as the code has it. A negative threshold and a non-positive minimum duration do not
  reach the scan: every value the threshold slider delivers lies between 0.0 and 3.5, every
  value the duration slider delivers between 2 and 30. A window whose end is before its start
  is not rejected: over a score table with rows it selects no score row and no alert, and the
  detail page stops with its warning of no data, as on any window without rows, and with no
  exception.
\<close>

theorem invalid_parameters:
  "(\<forall>alpha \<in> set alpha_values. 0 \<le> alpha \<and> alpha \<le> 35 / 10)
   \<and> (\<forall>beta \<in> set beta_values. 0 < beta \<and> 2 \<le> beta \<and> beta \<le> 30)
   \<and> (df \<noteq> [] \<and> end_datetime < start_datetime \<longrightarrow>
        filtered_anomaly_of df pid start_datetime end_datetime = []
        \<and> filtered_alert_of al pid start_datetime end_datetime = []
        \<and> detail_page le repr df al actions pid start_datetime end_datetime clicked
            = Inr Stopped)"
proof -
  have 1: "\<forall>alpha \<in> set alpha_values. 0 \<le> alpha \<and> alpha \<le> 35 / 10"
    using alpha_values_range by blast
  have 2: "\<forall>beta \<in> set beta_values. 0 < beta \<and> 2 \<le> beta \<and> beta \<le> 30"
    using beta_values_range by fastforce
  have 3: "filtered_anomaly_of df pid start_datetime end_datetime = []
        \<and> filtered_alert_of al pid start_datetime end_datetime = []
        \<and> detail_page le repr df al actions pid start_datetime end_datetime clicked
            = Inr Stopped"
    if ne: "df \<noteq> []" and inv: "end_datetime < start_datetime"
  proof -
    have a: "filtered_anomaly_of df pid start_datetime end_datetime = []"
      using inv by (auto simp: filtered_anomaly_of_def filter_empty_conv)
    have b: "filtered_alert_of al pid start_datetime end_datetime = []"
      using inv by (auto simp: filtered_alert_of_def filter_empty_conv)
    show ?thesis using a b detail_page_no_rows [OF ne a] by simp
  qed
  show ?thesis using 1 2 3 by blast
qed

theorem invalid_parameters_witness:
  "1 \<in> set alpha_values \<and> (0::rat) \<le> 1 \<and> (1::rat) \<le> 35 / 10
   \<and> 4 \<in> set beta_values \<and> (0::rat) < 4 \<and> (2::rat) \<le> 4 \<and> (4::rat) \<le> 30
   \<and> scenario_df \<noteq> [] \<and> (240::rat) < 480
   \<and> filtered_anomaly_of scenario_df ''D1'' 480 240 = []
   \<and> filtered_alert_of scenario_alerts ''D1'' 480 240 = []
   \<and> detail_page scenario_eval (\<lambda>v. []) scenario_df scenario_alerts [] ''D1'' 480 240 True
        = Inr Stopped"
proof -
  have a: "1 \<in> set alpha_values" unfolding alpha_values_def slider_values_def by code_simp
  have b: "4 \<in> set beta_values" unfolding beta_values_def slider_values_def by code_simp
  have ne: "scenario_df \<noteq> []" by (simp add: scenario_df_def)
  note p = invalid_parameters [of scenario_df 240 480 "''D1''" scenario_alerts scenario_eval
      "\<lambda>v. []" "[]" True]
  from p a b ne show ?thesis by auto
qed

text \<open>
  C7 as stated fails: on the scenario the detail page takes the window from 480 to 240,
  whose end is before its start, and stops with its warning of no data; no validation error
  is raised, and the same page shows the rows of the window from 240 to 480.
\<close>

theorem validation_counterexample:
  "(240 :: rat) < 480
   \<and> detail_page scenario_eval (\<lambda>v. []) scenario_df scenario_alerts [] ''D1'' 480 240 True
        = Inr Stopped
   \<and> detail_page scenario_eval (\<lambda>v. []) scenario_df scenario_alerts [] ''D1'' 480 240 False
        = Inr Stopped
   \<and> detail_page scenario_eval (\<lambda>v. []) scenario_df scenario_alerts [] ''D1'' 240 480 False
        = Inr (Shown None)"
  by (simp add: detail_page_def filtered_anomaly_of_def scenario_df_def row_of_def
      scenario_eval_def)

text \<open>
  C8. Empty and absent inputs give empty results, not exceptions. An empty score table
  gives no alarms, on the scan and on the page; an absent score file stops the page before
  the scan. An absent alert file is an empty alert table, and with an empty alert table the
  page returns the same alarms with no correlated alerts. The scan of a product without
  rows adds no alarm to the list it was given.
\<close>

theorem empty_inputs_give_empty_results:
  "detect_alarms le [] al alpha beta = Inr []
   \<and> alarm_page le (Some []) alert_file alpha beta = Inr (Shown [])
   \<and> alarm_page le None alert_file alpha beta = Inr Stopped
   \<and> load_alert_data None = []
   \<and> (alarm_page le (Some df) (Some al) alpha beta = Inr (Shown out) \<longrightarrow>
        alarm_page le (Some df) None alpha beta = Inr (Shown (map (\<lambda>a. a\<lparr>alerts := []\<rparr>) out))
        \<and> alarm_page le (Some df) (Some []) alpha beta
            = Inr (Shown (map (\<lambda>a. a\<lparr>alerts := []\<rparr>) out)))
   \<and> (pid \<notin> product_id ` set df \<longrightarrow>
        product_data_of df pid = []
        \<and> product_alarms le df al alpha beta pid alarms = Inr alarms)"
proof -
  have 1: "detect_alarms le [] x alpha beta = Inr []" for x
    by (simp add: detect_alarms_def unique_def)
  then have 2: "alarm_page le (Some []) alert_file alpha beta = Inr (Shown [])"
    by (simp add: alarm_page_def load_anomaly_data_def)
  have 3: "alarm_page le None alert_file alpha beta = Inr Stopped"
    by (simp add: alarm_page_def load_anomaly_data_def)
  have 4: "load_alert_data None = []" by (simp add: load_alert_data_def)
  have 5: "alarm_page le (Some df) None alpha beta
          = Inr (Shown (map (\<lambda>a. a\<lparr>alerts := []\<rparr>) out))
        \<and> alarm_page le (Some df) (Some []) alpha beta
          = Inr (Shown (map (\<lambda>a. a\<lparr>alerts := []\<rparr>) out))"
    if "alarm_page le (Some df) (Some al) alpha beta = Inr (Shown out)"
  proof -
    from that have "detect_alarms le df al alpha beta = Inr out"
      by (simp add: alarm_page_def load_anomaly_data_def load_alert_data_def split: sum.splits)
    then have "detect_alarms le df [] alpha beta = Inr (map (\<lambda>a. a\<lparr>alerts := []\<rparr>) out)"
      unfolding detect_alarms_def using products_loop_no_alerts by fastforce
    then show ?thesis
      by (simp add: alarm_page_def load_anomaly_data_def load_alert_data_def)
  qed
  have 6: "product_data_of df pid = []
        \<and> product_alarms le df al alpha beta pid alarms = Inr alarms"
    if u: "pid \<notin> product_id ` set df"
  proof -
    from u have "filter (\<lambda>r. product_id r = pid) df = []"
      by (auto simp: filter_empty_conv)
    then have "product_data_of df pid = []" by (simp add: product_data_of_def)
    then show ?thesis using product_alarms_unknown [OF u] by simp
  qed
  show ?thesis using 1 2 3 4 5 6 by blast
qed

theorem empty_inputs_give_empty_results_witness:
  "alarm_page scenario_eval (Some scenario_df) (Some scenario_alerts) 1 4
     = Inr (Shown [scenario_alarm])
   \<and> alarm_page scenario_eval (Some scenario_df) None 1 4
     = Inr (Shown [scenario_alarm\<lparr>alerts := []\<rparr>])
   \<and> alarm_page scenario_eval (Some scenario_df) (Some []) 1 4
     = Inr (Shown [scenario_alarm\<lparr>alerts := []\<rparr>])
   \<and> ''D9'' \<notin> product_id ` set scenario_df
   \<and> product_data_of scenario_df ''D9'' = []
   \<and> product_alarms scenario_eval scenario_df scenario_alerts 1 4 ''D9'' [] = Inr []"
proof -
  have u: "''D9'' \<notin> product_id ` set scenario_df"
    by (simp add: scenario_df_def row_of_def)
  note e = empty_inputs_give_empty_results [of scenario_eval scenario_alerts 1 4 _
      scenario_df "[scenario_alarm]" "''D9''" "[]"]
  from e scenario_page u show ?thesis by simp
qed

text \<open>
  C9. Every alarm the scan returns for a product covers a span \<open>s..e\<close> of at least one
  point of the product's time-ordered rows, its start time is not after its end time, every
  point of the span has an aggregate score strictly greater than the threshold, and its
  maximum score, the maximum over the points of the span, is strictly greater than the
  threshold.
\<close>

theorem incident_invariants:
  assumes run: "product_alarms le df al alpha beta pid [] = Inr out"
    and a: "a \<in> set out"
  shows "\<exists>s e. s \<le> e \<and> e < length (product_data_of df pid)
      \<and> start_time a = time (product_data_of df pid ! s)
      \<and> end_time a = time (product_data_of df pid ! e)
      \<and> start_time a \<le> end_time a
      \<and> (\<forall>k. s \<le> k \<and> k \<le> e \<longrightarrow> alpha < product_anomaly_score (product_data_of df pid ! k))
      \<and> (\<exists>m. max_score a = Some m \<and> alpha < m
            \<and> m = Max ((\<lambda>k. product_anomaly_score (product_data_of df pid ! k)) ` {s..e}))"
proof -
  let ?pd = "product_data_of df pid"
  let ?f = "\<lambda>k. product_anomaly_score (?pd ! k)"
  obtain s e where mr: "maximal_run ?pd alpha s e"
    and eq: "a = alarm_of_span le al pid ?pd s e"
    using alarm_in_out [OF run] a by blast
  from mr have se: "s \<le> e" and el: "e < length ?pd"
    and ab: "\<forall>k. s \<le> k \<and> k \<le> e \<longrightarrow> alpha < ?f k"
    by (simp_all add: maximal_run_iff above_def)
  have t: "time (?pd ! s) \<le> time (?pd ! e)"
    using sorted_time_le [OF sorted_product_data se el] .
  have sl: "map product_anomaly_score (iloc_slice ?pd s (e + 1)) = map ?f [s..<Suc e]"
    using iloc_slice_nth [OF el se] by (simp del: upt_Suc)
  have ne: "map ?f [s..<Suc e] \<noteq> []" using se by simp
  have st: "set (map ?f [s..<Suc e]) = ?f ` {s..e}"
    by (simp add: atLeastLessThanSuc_atLeastAtMost del: upt_Suc)
  have mx: "max_score a = Some (Max (?f ` {s..e}))"
    using eq sl column_max_Max [OF ne] st by (simp add: alarm_of_span_def del: upt_Suc)
  have "Max (?f ` {s..e}) \<in> ?f ` {s..e}" using se by (intro Max_in) auto
  then have "alpha < Max (?f ` {s..e})" using ab by auto
  then show ?thesis using se el eq t ab mx
    by (intro exI [of _ s] exI [of _ e]) (simp add: alarm_of_span_def)
qed

theorem incident_invariants_witness:
  "product_alarms scenario_eval scenario_df scenario_alerts 1 4 ''D1'' [] = Inr [scenario_alarm]
   \<and> scenario_alarm \<in> set [scenario_alarm]
   \<and> (\<exists>s e. s \<le> e \<and> e < length scenario_df
      \<and> start_time scenario_alarm = time (scenario_df ! s)
      \<and> end_time scenario_alarm = time (scenario_df ! e)
      \<and> start_time scenario_alarm \<le> end_time scenario_alarm
      \<and> (\<forall>k. s \<le> k \<and> k \<le> e \<longrightarrow> 1 < product_anomaly_score (scenario_df ! k))
      \<and> (\<exists>m. max_score scenario_alarm = Some m \<and> 1 < m
            \<and> m = Max ((\<lambda>k. product_anomaly_score (scenario_df ! k)) ` {s..e})))"
proof -
  have mem: "scenario_alarm \<in> set [scenario_alarm]" by simp
  from incident_invariants [OF scenario_run mem, unfolded scenario_product_data]
  show ?thesis using scenario_run mem by blast
qed

text \<open>
  C10, where the code departs from it. The physical inspection is appended at line 335,
  after the search of the treatments of line 331. On the window of the diagnosis scenario
  (maximum score 3.0) with an action history whose newest action has an empty treatment
  cell, the search raises TypeError: the page returns no diagnosis, and the physical
  inspection is not included. With the actions that have their treatments the same window
  gives the High diagnosis that ends with the physical inspection.
\<close>

theorem empty_treatment_raises:
  "column_max (map product_anomaly_score (filtered_anomaly_of diagnosis_df ''D1'' 0 600))
     = Some 3
   \<and> (25 / 10 :: rat) \<le> 3
   \<and> map treatment (take 3 (filtered_action_history_of nan_actions ''D1''))
       = [None, Some temperature_sensor_replacement, Some ''harness replacement'']
   \<and> detail_page diagnosis_eval diagnosis_repr diagnosis_df diagnosis_alerts nan_actions
       ''D1'' 0 600 True
     = Inl TypeError
   \<and> detail_page diagnosis_eval diagnosis_repr diagnosis_df diagnosis_alerts diagnosis_actions
       ''D1'' 0 600 True
     = Inr (Shown (Some (High,
         [SeverityHigh, RecommendHeader, High1_TemperatureSensor, High2_CoolingSystem,
          High3_PastFix, High4_PhysicalInspection])))"
proof -
  have "column_max (map product_anomaly_score (filtered_anomaly_of diagnosis_df ''D1'' 0 600))
     = Some 3"
    by (simp add: filtered_anomaly_of_def diagnosis_df_def row_of_def)
  moreover have "map treatment (take 3 (filtered_action_history_of nan_actions ''D1''))
       = [None, Some temperature_sensor_replacement, Some ''harness replacement'']"
    by (simp add: filtered_action_history_of_def nan_actions_def diagnosis_actions_def)
  ultimately show ?thesis using nan_page diagnosis_page by simp
qed

end
